theory Spec2Isabelle
  imports Complex_Main
begin

section \<open>Errors and results\<close>

text \<open>
  The Python code signals failure by raising. Every raise that matters for the
  operations below is a value of \<open>error\<close>; a fallible function returns
  \<open>error + 'a\<close> with \<open>Inl\<close> for the exception.
\<close>

datatype error =
    AssertionError
  | ValueError
  | ZeroDivisionError
  | IndexError
  | RasterioIOError

text \<open>Evaluate a list of fallible computations in order; the first exception wins.\<close>

fun sequence_r :: "(error + 'a) list \<Rightarrow> error + 'a list" where
  "sequence_r [] = Inr []"
| "sequence_r (Inl e # rs) = Inl e"
| "sequence_r (Inr x # rs) = (case sequence_r rs of Inl e \<Rightarrow> Inl e | Inr xs \<Rightarrow> Inr (x # xs))"

section \<open>Geotransforms (tiling.py, rasterio's Affine)\<close>

text \<open>
  A geotransform is the GDAL 6-tuple
  \<open>(origin_x, pixel_width, row_rotation, origin_y, col_rotation, pixel_height)\<close>.
  Python floats are idealised as reals.
\<close>

type_synonym geotransform = "real \<times> real \<times> real \<times> real \<times> real \<times> real"

text \<open>
  rasterio's \<open>Affine(a, b, c, d, e, f)\<close> is the matrix with rows \<open>a b c\<close> and
  \<open>d e f\<close>; \<open>Affine.from_gdal(c, a, b, f, d, e)\<close> reorders the GDAL tuple and
  \<open>to_gdal\<close> is its inverse.
\<close>

record Affine =
  aff_a :: real
  aff_b :: real
  aff_c :: real
  aff_d :: real
  aff_e :: real
  aff_f :: real

fun from_gdal :: "geotransform \<Rightarrow> Affine" where
  "from_gdal (c, a, b, f, d, e) =
     \<lparr>aff_a = a, aff_b = b, aff_c = c, aff_d = d, aff_e = e, aff_f = f\<rparr>"

definition to_gdal :: "Affine \<Rightarrow> geotransform" where
  "to_gdal t = (aff_c t, aff_a t, aff_b t, aff_f t, aff_d t, aff_e t)"

text \<open>\<open>Affine.__mul__\<close> on a point: \<open>(vx * a + vy * b + c, vx * d + vy * e + f)\<close>.\<close>

definition affine_mul :: "Affine \<Rightarrow> real \<times> real \<Rightarrow> real \<times> real" where
  "affine_mul t v =
     (fst v * aff_a t + snd v * aff_b t + aff_c t, fst v * aff_d t + snd v * aff_e t + aff_f t)"

text \<open>
  \<open>AffineTransformer(t).xy(row, col, offset="ul")\<close>: the upper-left corner shifts the
  pixel position by \<open>(0, 0)\<close> and the transform is applied to \<open>(col, row)\<close>.
\<close>

definition xy_ul :: "Affine \<Rightarrow> int \<Rightarrow> int \<Rightarrow> real \<times> real" where
  "xy_ul t row col = affine_mul t (of_int col + 0, of_int row + 0)"

text \<open>
  \<open>_affine_from_rowcol\<close>: \<open>(x, *affine[1:3], y, *affine[-2:])\<close>. (Isabelle names
  cannot start with an underscore, so the leading underscore of the private
  Python functions is dropped.)
\<close>

fun affine_from_rowcol :: "geotransform \<Rightarrow> int \<Rightarrow> int \<Rightarrow> geotransform" where
  "affine_from_rowcol (a0, a1, a2, a3, a4, a5) row col =
     (case xy_ul (from_gdal (a0, a1, a2, a3, a4, a5)) row col of
        (x, y) \<Rightarrow> (x, a1, a2, y, a4, a5))"

text \<open>
  Python's \<open>range(0, stop, step)\<close>: a zero step raises ValueError, the length is
  \<open>max 0 \<lceil>stop / step\<rceil>\<close>, and element \<open>k\<close> is \<open>k * step\<close>.
\<close>

definition range_len :: "int \<Rightarrow> int \<Rightarrow> nat" where
  "range_len stop step =
     (if 0 < step then nat ((stop + step - 1) div step) else nat ((stop + step + 1) div step))"

definition py_range :: "int \<Rightarrow> int \<Rightarrow> error + int list" where
  "py_range stop step =
     (if step = 0 then Inl ValueError
      else Inr (map (\<lambda>k. int k * step) [0 ..< range_len stop step]))"

text \<open>
  \<open>_tile_one_affine\<close>: the comprehension runs the row offsets in the outer loop and
  the column offsets in the inner loop.
\<close>

definition tile_one_affine :: "geotransform \<Rightarrow> int \<Rightarrow> int \<Rightarrow> int \<Rightarrow> error + geotransform list" where
  "tile_one_affine aff target_size tile_size overlap =
     (case py_range (target_size - tile_size + 1) overlap of
        Inl e \<Rightarrow> Inl e
      | Inr rows \<Rightarrow>
          (case py_range (target_size - tile_size + 1) overlap of
             Inl e \<Rightarrow> Inl e
           | Inr cols \<Rightarrow>
               Inr (concat (map (\<lambda>row. map (\<lambda>col. affine_from_rowcol aff row col) cols) rows))))"

section \<open>Arrays (numpy) as nested lists\<close>

text \<open>
  A band is a list of pixel rows, an image a list of bands \<open>[C, H, W]\<close>, a block a
  list of images \<open>[B, C, H, W]\<close>. Pixels are Python integers; the casts between
  the 16-bit dtypes are written out. numpy arrays are rectangular, which
  \<open>is_shape2\<close>, \<open>is_shape3\<close> and \<open>is_shape4\<close> express for nested lists.
\<close>

type_synonym band = "int list list"
type_synonym image = "int list list list"

definition is_shape2 :: "nat \<Rightarrow> nat \<Rightarrow> 'a list list \<Rightarrow> bool" where
  "is_shape2 h w bnd = (length bnd = h \<and> list_all (\<lambda>row. length row = w) bnd)"

definition is_shape3 :: "nat \<Rightarrow> nat \<Rightarrow> nat \<Rightarrow> 'a list list list \<Rightarrow> bool" where
  "is_shape3 c h w im = (length im = c \<and> list_all (is_shape2 h w) im)"

definition is_shape4 :: "nat \<Rightarrow> nat \<Rightarrow> nat \<Rightarrow> nat \<Rightarrow> 'a list list list list \<Rightarrow> bool" where
  "is_shape4 n c h w arr = (length arr = n \<and> list_all (is_shape3 c h w) arr)"

text \<open>
  \<open>arr.shape[k]\<close> past the leading axis is the length of the first element at
  that depth (for an array without an empty axis).
\<close>

fun first_len :: "'a list list \<Rightarrow> nat" where
  "first_len [] = 0"
| "first_len (x # xs) = length x"

text \<open>\<open>astype("int16")\<close> and \<open>astype(uint16)\<close> on integers wrap around.\<close>

definition astype_int16 :: "int \<Rightarrow> int" where
  "astype_int16 x = (x + 32768) mod 65536 - 32768"


text \<open>
  \<open>astype("int16")\<close> on a float64 drops the fraction (towards zero); the integer
  it leaves is wrapped like any other.
\<close>

definition float_to_int16 :: "real \<Rightarrow> int" where
  "float_to_int16 x = astype_int16 (if 0 \<le> x then \<lfloor>x\<rfloor> else \<lceil>x\<rceil>)"

text \<open>
  \<open>np.pad\<close> / \<open>da.pad\<close> with \<open>pad_width = (..., (0, pad_h), (0, pad_w))\<close>,
  \<open>mode="constant"\<close>, \<open>constant_values=0\<close> on one band of width \<open>w\<close>: zeros
  are appended to the right of every row and below the last row.
\<close>

definition pad_band :: "nat \<Rightarrow> nat \<Rightarrow> nat \<Rightarrow> band \<Rightarrow> band" where
  "pad_band pad_h pad_w w bnd =
     map (\<lambda>row. row @ replicate pad_w 0) bnd @ replicate pad_h (replicate (w + pad_w) 0)"

section \<open>Sliding-window tiling (tiling.py)\<close>

text \<open>
  \<open>np.lib.stride_tricks.sliding_window_view(padded, (c, t, t), axis=(1, 2, 3))\<close> on an
  image whose spatial axes have length \<open>side\<close>: entry \<open>[r][q]\<close> is the window of all
  \<open>c\<close> bands with upper-left pixel \<open>(r, q)\<close>, for \<open>r, q = 0 .. side - t\<close>.
\<close>

definition window_at :: "nat \<Rightarrow> nat \<Rightarrow> nat \<Rightarrow> image \<Rightarrow> image" where
  "window_at t r q im = map (\<lambda>bnd. map (\<lambda>row. take t (drop q row)) (take t (drop r bnd))) im"

definition sliding_window_view :: "nat \<Rightarrow> nat \<Rightarrow> image \<Rightarrow> image list list" where
  "sliding_window_view side t im =
     map (\<lambda>r. map (\<lambda>q. window_at t r q im) [0 ..< side - t + 1]) [0 ..< side - t + 1]"

text \<open>
  The extended slice \<open>xs[::k]\<close>: for \<open>k > 0\<close> the elements at \<open>0, k, 2k, ...\<close>; for
  \<open>k < 0\<close> the same from the last element backwards; \<open>k = 0\<close> raises ValueError.
\<close>

definition every_nth :: "nat \<Rightarrow> 'a list \<Rightarrow> 'a list" where
  "every_nth k xs = map (\<lambda>j. xs ! (j * k)) [0 ..< (length xs + k - 1) div k]"

definition slice_step :: "int \<Rightarrow> 'a list \<Rightarrow> 'a list" where
  "slice_step k xs = (if 0 < k then every_nth (nat k) xs else every_nth (nat (- k)) (rev xs))"

text \<open>
  \<open>_tile_array\<close> on a block \<open>arr\<close> of shape \<open>[B, C, h, w]\<close>. The exceptions are
  numpy's: a negative pad width, a window that is negative or larger than the padded
  array, a zero slice step, and \<open>reshape(-1, ...)\<close> of an array without elements.
\<close>

definition tile_array :: "image list \<Rightarrow> int \<Rightarrow> int \<Rightarrow> int \<Rightarrow> error + image list" where
  "tile_array arr tile_size overlap pad_size =
     (let h = first_len (concat arr);
          w = first_len (concat (concat arr));
          c = first_len arr;
          pad_h = pad_size - int h;
          pad_w = pad_size - int w
      in if pad_h < 0 \<or> pad_w < 0 then Inl ValueError
         else
           let padded = map (map (pad_band (nat pad_h) (nat pad_w) w)) arr
           in if tile_size < 0 \<or> pad_size < tile_size then Inl ValueError
              else
                let strided = map (sliding_window_view (nat pad_size) (nat tile_size)) padded
                in if overlap = 0 then Inl ValueError
                   else if arr = [] \<or> c = 0 \<or> tile_size = 0 then Inl ValueError
                   else Inr (concat (map (\<lambda>grid. concat (map (slice_step overlap)
                                                              (slice_step overlap grid)))
                                         strided)))"

section \<open>The store and the Tiler (tiling.py)\<close>

text \<open>
  A label row is two-dimensional \<open>[H, W]\<close> in a store written by the ImagePacker
  and three-dimensional \<open>[1, H, W]\<close> in a store written by the Tiler; the
  Reconstructor tests \<open>len(lbl.shape) == 2\<close>, so the rank is a tag.
\<close>

datatype lbl_row = Lbl2 band | Lbl3 image

fun is_Lbl2 :: "lbl_row \<Rightarrow> bool" where
  "is_Lbl2 (Lbl2 b) = True"
| "is_Lbl2 (Lbl3 i) = False"

fun lbl_band :: "lbl_row \<Rightarrow> band" where
  "lbl_band (Lbl2 b) = b"
| "lbl_band (Lbl3 i) = concat i"

text \<open>
  The datasets of the h5 file. \<open>'s\<close> is the type of the band statistics: float64
  (real) after packing, int16 after tiling.
\<close>

record 's store =
  img :: "image list"
  lbl :: "lbl_row list"
  path :: "string list"
  epsg :: "int list"
  affine :: "geotransform list"
  img_means :: "'s list"
  img_stds :: "'s list"

text \<open>
  The destination file: \<open>Absent\<close> while nothing has opened it, \<open>Partial\<close> once
  it has been created and an exception stopped the writing, \<open>Complete\<close> with
  the store it holds after a run without exception.
\<close>

datatype 'st dst_state = Absent | Partial | Complete 'st

text \<open>\<open>n_tiles = (((target_size - tile_size) // overlap) + 1) ** 2\<close>.\<close>

definition n_side :: "int \<Rightarrow> int \<Rightarrow> int \<Rightarrow> int" where
  "n_side target_size tile_size overlap = (target_size - tile_size) div overlap + 1"

definition n_tiles_of :: "int \<Rightarrow> int \<Rightarrow> int \<Rightarrow> int" where
  "n_tiles_of target_size tile_size overlap = (n_side target_size tile_size overlap)\<^sup>2"

text \<open>\<open>str(n)\<close> for a natural number and the format \<open>f"{i:0{width}}"\<close>.\<close>

fun str_nat :: "nat \<Rightarrow> string" where
  "str_nat n =
     (if n < 10 then [''0123456789'' ! n]
      else str_nat (n div 10) @ [''0123456789'' ! (n mod 10)])"

definition zero_pad :: "nat \<Rightarrow> string \<Rightarrow> string" where
  "zero_pad width s = replicate (width - length s) (CHR ''0'') @ s"

text \<open>
  \<open>_tile_paths\<close>: \<open>max\<close> of an empty list raises ValueError; the identifiers are
  replicated per tile with a zero-padded tile index; the count is asserted against
  \<open>img_tiled.shape[0]\<close>.
\<close>

definition tile_paths :: "string list \<Rightarrow> int \<Rightarrow> int \<Rightarrow> error + string list" where
  "tile_paths pth n_tiles img_rows =
     (if pth = [] then Inl ValueError
      else
        let width = length (str_nat (nat n_tiles));
            path_tiled = concat (map (\<lambda>p. map (\<lambda>i. p @ ''_'' @ zero_pad width (str_nat i))
                                               [0 ..< nat n_tiles]) pth)
        in if img_rows \<noteq> int (length path_tiled) then Inl AssertionError
           else Inr path_tiled)"

text \<open>\<open>_tile_epsgs\<close>: \<open>np.repeat(epsg, n_tiles)\<close> and the count assertion.\<close>

definition tile_epsgs :: "int list \<Rightarrow> int \<Rightarrow> int \<Rightarrow> error + int list" where
  "tile_epsgs eps n_tiles img_rows =
     (let epsg_tiled = concat (map (replicate (nat n_tiles)) eps)
      in if img_rows \<noteq> int (length epsg_tiled) then Inl AssertionError
         else Inr epsg_tiled)"

text \<open>\<open>_tile_affines\<close>: the chained per-item geotransforms and the count assertion.\<close>

definition tile_affines ::
  "geotransform list \<Rightarrow> int \<Rightarrow> int \<Rightarrow> int \<Rightarrow> int \<Rightarrow> error + geotransform list" where
  "tile_affines affs target_size tile_size overlap img_rows =
     (case sequence_r (map (\<lambda>a. tile_one_affine a target_size tile_size overlap) affs) of
        Inl e \<Rightarrow> Inl e
      | Inr per_item \<Rightarrow>
          let affine_tiled = concat per_item
          in if img_rows \<noteq> int (length affine_tiled) then Inl AssertionError
             else Inr affine_tiled)"

text \<open>
  Everything \<open>tile_img_h5\<close> does before it opens the destination. The tiled arrays
  are lazy at this point: only their declared shape, \<open>len(img) * n_tiles\<close> rows, is
  known. Reading \<open>/lbl\<close> with three chunk sizes needs a three-dimensional dataset.
\<close>

definition tile_prepare ::
  "real store \<Rightarrow> int \<Rightarrow> int \<Rightarrow> int \<Rightarrow> error + (int \<times> string list \<times> int list \<times> geotransform list)" where
  "tile_prepare src tile_size overlap target_size =
     (if \<not> list_all is_Lbl2 (lbl src) then Inl ValueError
      else if overlap = 0 then Inl ZeroDivisionError
      else
        let n_tiles = n_tiles_of target_size tile_size overlap;
            img_rows = int (length (img src)) * n_tiles
        in case tile_paths (path src) n_tiles img_rows of
             Inl e \<Rightarrow> Inl e
           | Inr path_tiled \<Rightarrow>
               (case tile_epsgs (epsg src) n_tiles img_rows of
                  Inl e \<Rightarrow> Inl e
                | Inr epsg_tiled \<Rightarrow>
                    (case tile_affines (affine src) target_size tile_size overlap img_rows of
                       Inl e \<Rightarrow> Inl e
                     | Inr affine_tiled \<Rightarrow> Inr (n_tiles, path_tiled, epsg_tiled, affine_tiled))))"

text \<open>
  The writing, after the destination has been opened. \<open>create_dataset\<close> refuses a
  chunk that is not positive or longer than the dataset; \<open>da.store\<close> then runs
  \<open>_tile_array\<close> on the int16 cast of every one-item block, first for \<open>/img\<close>, then
  for \<open>/lbl\<close> (each label row expanded to one band); the statistics are cast to int16.
\<close>

definition tile_write ::
  "real store \<Rightarrow> int \<Rightarrow> int \<Rightarrow> int \<Rightarrow> int \<Rightarrow> int \<times> string list \<times> int list \<times> geotransform list
     \<Rightarrow> error + int store" where
  "tile_write src tile_size overlap target_size chunk_size plan =
     (case plan of (n_tiles, path_tiled, epsg_tiled, affine_tiled) \<Rightarrow>
        if chunk_size \<le> 0 \<or> int (length (img src)) * n_tiles < chunk_size then Inl ValueError
        else
          case sequence_r (map (\<lambda>im. tile_array [map (map (map astype_int16)) im]
                                        tile_size overlap target_size) (img src)) of
            Inl e \<Rightarrow> Inl e
          | Inr img_blocks \<Rightarrow>
              if int (length (lbl src)) * n_tiles < chunk_size then Inl ValueError
              else
                (case sequence_r (map (\<lambda>l. tile_array [[map (map astype_int16) (lbl_band l)]]
                                              tile_size overlap target_size) (lbl src)) of
                   Inl e \<Rightarrow> Inl e
                 | Inr lbl_blocks \<Rightarrow>
                     Inr \<lparr>img = concat img_blocks,
                          lbl = map Lbl3 (concat lbl_blocks),
                          path = path_tiled,
                          epsg = epsg_tiled,
                          affine = affine_tiled,
                          img_means = map float_to_int16 (img_means src),
                          img_stds = map float_to_int16 (img_stds src)\<rparr>))"

text \<open>
  \<open>tile_img_h5\<close>: the exception, if any, and the state in which the destination
  file is left.
\<close>

definition tile_img_h5 ::
  "real store \<Rightarrow> int \<Rightarrow> int \<Rightarrow> int \<Rightarrow> int \<Rightarrow> error option \<times> int store dst_state" where
  "tile_img_h5 src tile_size overlap target_size chunk_size =
     (case tile_prepare src tile_size overlap target_size of
        Inl e \<Rightarrow> (Some e, Absent)
      | Inr plan \<Rightarrow>
          (case tile_write src tile_size overlap target_size chunk_size plan of
             Inl e \<Rightarrow> (Some e, Partial)
           | Inr st \<Rightarrow> (None, Complete st)))"

section \<open>Store schemas and the padded canvas\<close>

text \<open>
  The zero-padded canvas of an image as a function of the pixel position: the image's
  own pixel inside its extent and 0 outside.
\<close>

definition padded_pixel :: "image \<Rightarrow> nat \<Rightarrow> nat \<Rightarrow> nat \<Rightarrow> int" where
  "padded_pixel im c y x =
     (if c < length im \<and> y < length (im ! c) \<and> x < length (im ! c ! y) then im ! c ! y ! x else 0)"

text \<open>The padded array that \<open>_tile_array\<close> builds for a block holding the one image \<open>im\<close>.\<close>

definition pad_image :: "int \<Rightarrow> image \<Rightarrow> image" where
  "pad_image side im =
     map (pad_band (nat (side - int (first_len im))) (nat (side - int (first_len (concat im))))
            (first_len (concat im))) im"

fun lbl_has_shape :: "nat list \<Rightarrow> lbl_row \<Rightarrow> bool" where
  "lbl_has_shape [h, w] (Lbl2 b) = is_shape2 h w b"
| "lbl_has_shape [c, h, w] (Lbl3 i) = is_shape3 c h w i"
| "lbl_has_shape dims l = False"

text \<open>
  The parallel-array invariant of a store whose label rows have the shape
  \<open>lbl_dims\<close>: \<open>/img\<close> is \<open>[N, C, H, W]\<close>, the per-row datasets have leading
  length \<open>N\<close> and the statistics length \<open>C\<close>.
\<close>

definition store_shape ::
  "nat list \<Rightarrow> nat \<Rightarrow> nat \<Rightarrow> nat \<Rightarrow> nat \<Rightarrow> 's store \<Rightarrow> bool" where
  "store_shape lbl_dims n c h w st =
     (is_shape4 n c h w (img st) \<and>
      length (lbl st) = n \<and> list_all (lbl_has_shape lbl_dims) (lbl st) \<and>
      length (path st) = n \<and> length (epsg st) = n \<and> length (affine st) = n \<and>
      length (img_means st) = c \<and> length (img_stds st) = c)"

text \<open>The layout the ImagePacker writes: two-dimensional label rows, \<open>/lbl\<close> is \<open>[N, H, W]\<close>.\<close>

definition packed_store :: "nat \<Rightarrow> nat \<Rightarrow> nat \<Rightarrow> nat \<Rightarrow> 's store \<Rightarrow> bool" where
  "packed_store n c h w st = store_shape [h, w] n c h w st"

text \<open>
  The layout as the specification words it: \<open>/lbl\<close> is \<open>[N, 1, H, W]\<close>, every label row
  a one-band image.
\<close>

definition spec_store :: "nat \<Rightarrow> nat \<Rightarrow> nat \<Rightarrow> nat \<Rightarrow> 's store \<Rightarrow> bool" where
  "spec_store n c h w st = store_shape [1, h, w] n c h w st"

text \<open>
  The tiles of one padded image and the geotransforms of one parent in tile order: tile
  \<open>i\<close> of \<open>n_side\<^sup>2\<close> has its origin at row \<open>overlap * (i div n_side)\<close> and column
  \<open>overlap * (i mod n_side)\<close>.
\<close>

definition tile_origin :: "int \<Rightarrow> int \<Rightarrow> int \<Rightarrow> nat \<Rightarrow> nat \<times> nat" where
  "tile_origin target_size tile_size overlap i =
     (nat overlap * (i div nat (n_side target_size tile_size overlap)),
      nat overlap * (i mod nat (n_side target_size tile_size overlap)))"

definition tiles_of :: "int \<Rightarrow> int \<Rightarrow> int \<Rightarrow> image \<Rightarrow> image list" where
  "tiles_of t ov T im =
     map (\<lambda>i. window_at (nat t) (i div nat (n_side T t ov) * nat ov)
                 (i mod nat (n_side T t ov) * nat ov) (pad_image T im))
         [0 ..< nat (n_side T t ov) * nat (n_side T t ov)]"

definition tile_geotransforms :: "int \<Rightarrow> int \<Rightarrow> int \<Rightarrow> geotransform \<Rightarrow> geotransform list" where
  "tile_geotransforms t ov T a =
     map (\<lambda>i. affine_from_rowcol a (int (i div nat (n_side T t ov)) * ov)
                                   (int (i mod nat (n_side T t ov)) * ov))
         [0 ..< nat (n_side T t ov) * nat (n_side T t ov)]"

text \<open>
  A small packed store for concrete evaluation: one item with one band of 2 x 3 pixels
  (one of them above the int16 range), its label, and fractional statistics.
\<close>

definition example_store :: "real store" where
  "example_store =
     \<lparr>img = [[[[1, 2, 3], [4, 5, 40000]]]],
      lbl = [Lbl2 [[1, 0, 1], [0, 1, 0]]],
      path = [''im''],
      epsg = [32601],
      affine = [(0, 10, 0, 0, 0, -10)],
      img_means = [5 / 2],
      img_stds = [3 / 2]\<rparr>"

text \<open>The store that tiling \<open>example_store\<close> with tile size 2, overlap 1 and target size 3 writes.\<close>

definition example_tiled :: "int store" where
  "example_tiled =
     \<lparr>img = [[[[1, 2], [4, 5]]], [[[2, 3], [5, - 25536]]], [[[4, 5], [0, 0]]],
             [[[5, - 25536], [0, 0]]]],
      lbl = [Lbl3 [[[1, 0], [0, 1]]], Lbl3 [[[0, 1], [1, 0]]],
             Lbl3 [[[0, 1], [0, 0]]], Lbl3 [[[1, 0], [0, 0]]]],
      path = [''im_0'', ''im_1'', ''im_2'', ''im_3''],
      epsg = [32601, 32601, 32601, 32601],
      affine = [(0, 10, 0, 0, 0, - 10), (10, 10, 0, 0, 0, - 10),
                (0, 10, 0, - 10, 0, - 10), (10, 10, 0, - 10, 0, - 10)],
      img_means = [2],
      img_stds = [1]\<rparr>"

text \<open>
  A store with one image row and two label rows, and the store that tiling it with tile
  size 2, overlap 1 and target size 3 writes.
\<close>

definition example_store_two_labels :: "real store" where
  "example_store_two_labels =
     example_store\<lparr>lbl := [Lbl2 [[1, 0, 1], [0, 1, 0]], Lbl2 [[0, 1, 0], [1, 0, 1]]]\<rparr>"

definition example_tiled_two_labels :: "int store" where
  "example_tiled_two_labels =
     example_tiled\<lparr>lbl := [Lbl3 [[[1, 0], [0, 1]]], Lbl3 [[[0, 1], [1, 0]]],
                            Lbl3 [[[0, 1], [0, 0]]], Lbl3 [[[1, 0], [0, 0]]],
                            Lbl3 [[[0, 1], [1, 0]]], Lbl3 [[[1, 0], [0, 1]]],
                            Lbl3 [[[1, 0], [0, 0]]], Lbl3 [[[0, 1], [0, 0]]]]\<rparr>"

section \<open>Rasters and the ImagePacker (conversion.py)\<close>

text \<open>
  A georeferenced raster file as rasterio shows it: width, height, the EPSG code of
  its CRS, its transform and the pixel array \<open>[bands, rows, cols]\<close> that \<open>read()\<close>
  returns. The store is declared with dtype uint16, so a well-formed source raster
  is rectangular, has at least one band and one pixel, and holds uint16 values.
\<close>

record raster =
  width :: nat
  height :: nat
  crs :: int
  transform :: Affine
  pixels :: image

definition wf_raster :: "raster \<Rightarrow> bool" where
  "wf_raster r =
     (pixels r \<noteq> [] \<and> 0 < height r \<and> 0 < width r \<and>
      is_shape3 (length (pixels r)) (height r) (width r) (pixels r) \<and>
      list_all (list_all (list_all (\<lambda>v. 0 \<le> v \<and> v < 65536))) (pixels r))"

text \<open>
  A path is the pair of its parent directory and its file name; the file system below
  the source folder is the list of its raster files in the order in which globbing
  returns them. The glob patterns are predicates on the file name.
\<close>

type_synonym fpath = "string \<times> string"
type_synonym filesystem = "(fpath \<times> raster) list"

text \<open>\<open>rio.open(path)\<close>: a missing file raises.\<close>

definition rio_open :: "filesystem \<Rightarrow> fpath \<Rightarrow> error + raster" where
  "rio_open fs p = (case map_of fs p of None \<Rightarrow> Inl RasterioIOError | Some r \<Rightarrow> Inr r)"

text \<open>
  The image list (every file matching \<open>file_glob\<close> and not \<open>label_glob\<close>) and the
  label list (for every image, every file of its directory matching \<open>label_glob\<close>).
\<close>

definition list_images :: "filesystem \<Rightarrow> (string \<Rightarrow> bool) \<Rightarrow> (string \<Rightarrow> bool) \<Rightarrow> fpath list" where
  "list_images fs file_glob label_glob =
     filter (\<lambda>p. file_glob (snd p) \<and> \<not> label_glob (snd p)) (map fst fs)"

definition list_labels :: "filesystem \<Rightarrow> (string \<Rightarrow> bool) \<Rightarrow> fpath list \<Rightarrow> fpath list" where
  "list_labels fs label_glob l_images =
     concat (map (\<lambda>i. filter (\<lambda>j. fst j = fst i \<and> label_glob (snd j)) (map fst fs)) l_images)"

text \<open>\<open>_derive_metadata\<close>: \<open>(width, height, epsg, affine, bands)\<close>.\<close>

definition derive_metadata ::
  "filesystem \<Rightarrow> fpath \<Rightarrow> error + (nat \<times> nat \<times> int \<times> geotransform \<times> nat)" where
  "derive_metadata fs image_path =
     (case rio_open fs image_path of
        Inl e \<Rightarrow> Inl e
      | Inr src \<Rightarrow>
          Inr (width src, height src, crs src, to_gdal (transform src), length (pixels src)))"

text \<open>
  \<open>src.read(bands)\<close> with a list of 1-based band indices: an index outside
  \<open>1 .. count\<close> raises IndexError. \<open>src.read(1)\<close> is the first band.
\<close>

definition read_bands :: "raster \<Rightarrow> int list \<Rightarrow> error + image" where
  "read_bands src bands =
     (if list_all (\<lambda>b. 1 \<le> b \<and> b \<le> int (length (pixels src))) bands
      then Inr (map (\<lambda>b. pixels src ! nat (b - 1)) bands)
      else Inl IndexError)"

definition read_band1 :: "raster \<Rightarrow> error + band" where
  "read_band1 src = (case pixels src of [] \<Rightarrow> Inl IndexError | b # bs \<Rightarrow> Inr b)"

text \<open>\<open>_load_img\<close>: the selected bands, padded at the bottom and at the right.\<close>

definition load_img :: "filesystem \<Rightarrow> fpath \<Rightarrow> nat \<Rightarrow> nat \<Rightarrow> int list \<Rightarrow> error + image" where
  "load_img fs image_file max_width max_height bands =
     (case rio_open fs image_file of
        Inl e \<Rightarrow> Inl e
      | Inr src_img \<Rightarrow>
          let pad_height_img = int max_height - int (height src_img);
              pad_width_img = int max_width - int (width src_img)
          in case read_bands src_img bands of
               Inl e \<Rightarrow> Inl e
             | Inr arr \<Rightarrow>
                 if pad_height_img < 0 \<or> pad_width_img < 0 then Inl ValueError
                 else Inr (map (pad_band (nat pad_height_img) (nat pad_width_img) (width src_img)) arr))"

text \<open>
  \<open>_load_lbl\<close>: opens \<open>image_file.parent / "label.tif"\<close>, whatever the name of
  \<open>image_file\<close>, and pads its first band.
\<close>

definition load_lbl :: "filesystem \<Rightarrow> fpath \<Rightarrow> nat \<Rightarrow> nat \<Rightarrow> error + band" where
  "load_lbl fs image_file max_width max_height =
     (case rio_open fs (fst image_file, ''label.tif'') of
        Inl e \<Rightarrow> Inl e
      | Inr src_lbl \<Rightarrow>
          let pad_height_lbl = int max_height - int (height src_lbl);
              pad_width_lbl = int max_width - int (width src_lbl)
          in case read_band1 src_lbl of
               Inl e \<Rightarrow> Inl e
             | Inr arr \<Rightarrow>
                 if pad_height_lbl < 0 \<or> pad_width_lbl < 0 then Inl ValueError
                 else Inr (pad_band (nat pad_height_lbl) (nat pad_width_lbl) (width src_lbl) arr))"

text \<open>
  \<open>pathlib\<close>'s \<open>stem\<close>: the name without its last suffix; a name with no dot, with
  only a leading dot or with a trailing dot has no suffix.
\<close>

definition stem :: "string \<Rightarrow> string" where
  "stem name =
     (let k = length (takeWhile (\<lambda>ch. ch \<noteq> CHR ''.'') (rev name))
      in if 0 < k \<and> k + 1 < length name then take (length name - k - 1) name else name)"

text \<open>
  \<open>_compute_statistics\<close>: mean and (population) standard deviation over the axes
  \<open>(0, 2, 3)\<close>, one value per band; floats idealised as reals.
\<close>

definition band_values :: "image list \<Rightarrow> nat \<Rightarrow> int list" where
  "band_values arr c = concat (map (\<lambda>im. concat (im ! c)) arr)"

definition mean_of :: "int list \<Rightarrow> real" where
  "mean_of xs = real_of_int (sum_list xs) / real (length xs)"

definition std_of :: "int list \<Rightarrow> real" where
  "std_of xs = sqrt (sum_list (map (\<lambda>x. (real_of_int x - mean_of xs)\<^sup>2) xs) / real (length xs))"

text \<open>
  What \<open>convert_img_to_h5\<close> has computed when it reaches \<open>da.to_hdf5\<close>: the image and
  label lists, the canvas, the band selection, the metadata columns and whether the
  size warning was emitted. The image and label arrays are still lazy.
\<close>

record conversion_plan =
  p_images :: "fpath list"
  p_labels :: "fpath list"
  p_max_width :: nat
  p_max_height :: nat
  p_bands :: "int list"
  p_epsgs :: "int list"
  p_affines :: "geotransform list"
  p_warning :: bool

text \<open>
  The size warning of \<open>convert_img_to_h5\<close>:
  \<open>min(widths) / max(widths) < 0.5 or min(heights) / max(heights) < 0.5\<close>, with \<open>or\<close>
  evaluated left to right and a division by zero raising. (For sizes that a float
  holds exactly, \<open>min / max < 0.5\<close> is \<open>2 * min < max\<close>.)
\<close>

definition size_warning :: "nat list \<Rightarrow> nat list \<Rightarrow> error + bool" where
  "size_warning widths heights =
     (if Max (set widths) = 0 then Inl ZeroDivisionError
      else if 2 * Min (set widths) < Max (set widths) then Inr True
      else if Max (set heights) = 0 then Inl ZeroDivisionError
      else Inr (2 * Min (set heights) < Max (set heights)))"

text \<open>
  The band checks of \<open>convert_img_to_h5\<close> under \<open>if image_bands:\<close>, which an absent
  and an empty list both fail; \<open>bands\<close> are the band counts of the probed images.
\<close>

definition select_bands :: "int list option \<Rightarrow> nat list \<Rightarrow> error + int list" where
  "select_bands image_bands bands =
     (case image_bands of
        None \<Rightarrow> Inr (map int [1 ..< Suc (Max (set bands))])
      | Some bs \<Rightarrow>
          if bs = [] then Inr (map int [1 ..< Suc (Max (set bands))])
          else if length (remdups bands) \<noteq> 1 then Inl AssertionError
          else if int (Max (set bands)) < Max (set bs) then Inl AssertionError
          else Inr bs)"

text \<open>
  The eager part of \<open>convert_img_to_h5\<close>: the count assertion; the metadata of every
  image; \<open>zip(*metadata, strict=True)\<close>, which cannot be unpacked for an empty list;
  the size warning; the band checks.
\<close>

definition convert_prepare ::
  "filesystem \<Rightarrow> (string \<Rightarrow> bool) \<Rightarrow> (string \<Rightarrow> bool) \<Rightarrow> int list option
     \<Rightarrow> error + conversion_plan" where
  "convert_prepare fs file_glob label_glob image_bands =
     (let l_images = list_images fs file_glob label_glob;
          l_labels = list_labels fs label_glob l_images
      in if length l_images \<noteq> length l_labels then Inl AssertionError
         else
           case sequence_r (map (derive_metadata fs) l_images) of
             Inl e \<Rightarrow> Inl e
           | Inr metadata \<Rightarrow>
               if metadata = [] then Inl ValueError
               else
                 let widths = map fst metadata;
                     heights = map (fst \<circ> snd) metadata;
                     epsgs = map (fst \<circ> snd \<circ> snd) metadata;
                     affines = map (fst \<circ> snd \<circ> snd \<circ> snd) metadata;
                     bands = map (snd \<circ> snd \<circ> snd \<circ> snd) metadata
                 in case size_warning widths heights of
                      Inl e \<Rightarrow> Inl e
                    | Inr warning \<Rightarrow>
                        (case select_bands image_bands bands of
                           Inl e \<Rightarrow> Inl e
                         | Inr selected \<Rightarrow>
                             Inr \<lparr>p_images = l_images, p_labels = l_labels,
                                  p_max_width = Max (set widths), p_max_height = Max (set heights),
                                  p_bands = selected, p_epsgs = epsgs, p_affines = affines,
                                  p_warning = warning\<rparr>))"

text \<open>
  \<open>da.to_hdf5\<close> and \<open>_compute_statistics\<close>: the destination is open; every image
  and every label is loaded and padded (the first exception wins), the rows are
  stacked, the identifiers are the stems of the image names, and the statistics are
  computed from the stacked images.
\<close>

definition convert_write :: "filesystem \<Rightarrow> conversion_plan \<Rightarrow> error + real store" where
  "convert_write fs plan =
     (case sequence_r (map (\<lambda>p. load_img fs p (p_max_width plan) (p_max_height plan) (p_bands plan))
                           (p_images plan)) of
        Inl e \<Rightarrow> Inl e
      | Inr img_arr \<Rightarrow>
          (case sequence_r (map (\<lambda>p. load_lbl fs p (p_max_width plan) (p_max_height plan))
                                (p_labels plan)) of
             Inl e \<Rightarrow> Inl e
           | Inr lbl_arr \<Rightarrow>
               Inr \<lparr>img = img_arr,
                    lbl = map Lbl2 lbl_arr,
                    path = map (\<lambda>p. stem (snd p)) (p_images plan),
                    epsg = p_epsgs plan,
                    affine = p_affines plan,
                    img_means = map (\<lambda>c. mean_of (band_values img_arr c)) [0 ..< first_len img_arr],
                    img_stds = map (\<lambda>c. std_of (band_values img_arr c)) [0 ..< first_len img_arr]\<rparr>))"

definition convert_img_to_h5 ::
  "filesystem \<Rightarrow> (string \<Rightarrow> bool) \<Rightarrow> (string \<Rightarrow> bool) \<Rightarrow> int list option
     \<Rightarrow> error option \<times> real store dst_state" where
  "convert_img_to_h5 fs file_glob label_glob image_bands =
     (case convert_prepare fs file_glob label_glob image_bands of
        Inl e \<Rightarrow> (Some e, Absent)
      | Inr plan \<Rightarrow>
          (case convert_write fs plan of
             Inl e \<Rightarrow> (Some e, Partial)
           | Inr st \<Rightarrow> (None, Complete st)))"

section \<open>The Reconstructor (conversion.py)\<close>


text \<open>
  File systems for concrete evaluation. All rasters share one CRS and one transform;
  \<open>raster_of\<close> derives width and height from the pixel array.
  \<^item> \<open>example_fs\<close>: the image \<open>a/img.tif\<close> (2 bands, 1 x 2 pixels) and its label
    \<open>a/label.tif\<close>.
  \<^item> \<open>example_fs10\<close>: ten directories with one one-band image and one label each; the
    first image and label are 1 x 1, the other nine 1 x 2.
  \<^item> \<open>example_fs_bands\<close>: two directories whose images have 2 bands and 1 band.
  \<^item> \<open>example_fs_misnamed\<close>: a directory whose label file is \<open>label_x.tif\<close>.
\<close>

definition example_transform :: Affine where
  "example_transform =
     \<lparr>aff_a = 10, aff_b = 0, aff_c = 500, aff_d = 0, aff_e = - 10, aff_f = 900\<rparr>"

definition raster_of :: "image \<Rightarrow> raster" where
  "raster_of px =
     \<lparr>width = first_len (concat px), height = first_len px, crs = 32601,
      transform = example_transform, pixels = px\<rparr>"

definition example_raster :: raster where
  "example_raster = raster_of [[[7, 8]], [[9, 65535]]]"

definition example_label :: raster where
  "example_label = raster_of [[[1, 0]]]"

definition example_fs :: filesystem where
  "example_fs = [((''a'', ''img.tif''), example_raster), ((''a'', ''label.tif''), example_label)]"

definition example_packed :: "real store" where
  "example_packed =
     \<lparr>img = [[[[7, 8]], [[9, 65535]]]],
      lbl = [Lbl2 [[1, 0]]],
      path = [''img''],
      epsg = [32601],
      affine = [(500, 10, 0, 900, 0, - 10)],
      img_means = [mean_of [7, 8], mean_of [9, 65535]],
      img_stds = [std_of [7, 8], std_of [9, 65535]]\<rparr>"

definition example_image10 :: "nat \<Rightarrow> image" where
  "example_image10 k = (if k = 0 then [[[5]]] else [[[int k, int k + 1]]])"

definition example_label10 :: "nat \<Rightarrow> image" where
  "example_label10 k = (if k = 0 then [[[1]]] else [[[0, 1]]])"

definition example_fs10 :: filesystem where
  "example_fs10 =
     concat (map (\<lambda>k. [((''d'' @ str_nat k, ''img_'' @ str_nat k @ ''.tif''),
                          raster_of (example_image10 k)),
                         ((''d'' @ str_nat k, ''label.tif''), raster_of (example_label10 k))])
                 [0 ..< 10])"

definition example_plan10 :: conversion_plan where
  "example_plan10 =
     \<lparr>p_images = map (\<lambda>k. (''d'' @ str_nat k, ''img_'' @ str_nat k @ ''.tif'')) [0 ..< 10],
      p_labels = map (\<lambda>k. (''d'' @ str_nat k, ''label.tif'')) [0 ..< 10],
      p_max_width = 2, p_max_height = 1, p_bands = [1],
      p_epsgs = replicate 10 32601,
      p_affines = replicate 10 (500, 10, 0, 900, 0, - 10),
      p_warning = False\<rparr>"

definition example_img10 :: "image list" where
  "example_img10 = [[[5, 0]]] # map (\<lambda>k. [[[int k, int k + 1]]]) [1 ..< 10]"

definition example_packed10 :: "real store" where
  "example_packed10 =
     \<lparr>img = example_img10,
      lbl = Lbl2 [[1, 0]] # replicate 9 (Lbl2 [[0, 1]]),
      path = map (\<lambda>k. ''img_'' @ str_nat k) [0 ..< 10],
      epsg = replicate 10 32601,
      affine = replicate 10 (500, 10, 0, 900, 0, - 10),
      img_means = [mean_of (band_values example_img10 0)],
      img_stds = [std_of (band_values example_img10 0)]\<rparr>"

definition example_fs_bands :: filesystem where
  "example_fs_bands =
     [((''a'', ''img.tif''), raster_of [[[7, 8]], [[9, 10]]]),
      ((''a'', ''label.tif''), raster_of [[[1, 0]]]),
      ((''b'', ''img.tif''), raster_of [[[3, 4]]]),
      ((''b'', ''label.tif''), raster_of [[[0, 1]]])]"


definition is_tif :: "string \<Rightarrow> bool" where
  "is_tif name = (take 4 (rev name) = ''fit.'')"

definition is_label :: "string \<Rightarrow> bool" where
  "is_label name = (take 5 name = ''label'')"





text \<open>The metadata tuple that \<open>_derive_metadata\<close> returns for an open raster.\<close>

definition probe :: "raster \<Rightarrow> nat \<times> nat \<times> int \<times> geotransform \<times> nat" where
  "probe r = (width r, height r, crs r, to_gdal (transform r), length (pixels r))"

section \<open>Lists, grids and windows\<close>

lemma sequence_r_map_Inr:
  "sequence_r (map f xs) = Inr ys \<Longrightarrow>
     length ys = length xs \<and> (\<forall>k < length xs. f (xs ! k) = Inr (ys ! k))"
proof (induction xs arbitrary: ys)
  case Nil
  then show ?case by simp
next
  case (Cons x xs)
  then obtain y where y: "f x = Inr y"
    by (cases "f x") auto
  with Cons.prems obtain ys' where ys': "sequence_r (map f xs) = Inr ys'" "ys = y # ys'"
    by (cases "sequence_r (map f xs)") auto
  from Cons.IH [OF ys'(1)] y ys'(2) show ?case
    by (auto simp: nth_Cons split: nat.splits)
qed

lemma sequence_r_map_Inl:
  "sequence_r (map f xs) = Inl e \<Longrightarrow> \<exists>x \<in> set xs. f x = Inl e"
proof (induction xs)
  case Nil
  then show ?case by simp
next
  case (Cons x xs)
  then show ?case
    by (cases "f x"; cases "sequence_r (map f xs)") auto
qed

lemma sequence_r_all_Inr:
  "(\<And>x. x \<in> set xs \<Longrightarrow> f x = Inr (g x)) \<Longrightarrow> sequence_r (map f xs) = Inr (map g xs)"
  by (induction xs) auto

lemma nth_concat_uniform:
  "(\<And>xs. xs \<in> set xss \<Longrightarrow> length xs = n) \<Longrightarrow> k < length xss \<Longrightarrow> i < n \<Longrightarrow>
     concat xss ! (k * n + i) = xss ! k ! i"
proof (induction xss arbitrary: k)
  case Nil
  then show ?case by simp
next
  case (Cons xs xss)
  have len: "length xs = n" using Cons.prems(1) by simp
  show ?case
  proof (cases k)
    case 0
    with len Cons.prems show ?thesis by (simp add: nth_append)
  next
    case (Suc k')
    have "concat xss ! (k' * n + i) = xss ! k' ! i"
      using Cons.IH [of k'] Cons.prems Suc by simp
    moreover have "Suc k' * n + i = n + (k' * n + i)" by simp
    ultimately show ?thesis
      using len Suc by (simp add: nth_append del: mult_Suc)
  qed
qed

lemma length_concat_uniform:
  "(\<And>xs. xs \<in> set xss \<Longrightarrow> length xs = n) \<Longrightarrow> length (concat xss) = length xss * n"
  by (induction xss) auto

lemma length_every_nth: "length (every_nth k xs) = (length xs + k - 1) div k"
  by (simp add: every_nth_def)

lemma nth_every_nth:
  "j < (length xs + k - 1) div k \<Longrightarrow> every_nth k xs ! j = xs ! (j * k)"
  by (simp add: every_nth_def)

lemma is_shape2_nth: "is_shape2 h w bnd \<Longrightarrow> y < h \<Longrightarrow> length (bnd ! y) = w"
  by (simp add: is_shape2_def list_all_length)

lemma is_shape3_nth: "is_shape3 c h w im \<Longrightarrow> k < c \<Longrightarrow> is_shape2 h w (im ! k)"
  by (simp add: is_shape3_def list_all_length)

lemma is_shape4_nth: "is_shape4 n c h w arr \<Longrightarrow> k < n \<Longrightarrow> is_shape3 c h w (arr ! k)"
  by (simp add: is_shape4_def list_all_length)

lemma pad_band_shape:
  assumes "is_shape2 h w bnd" and "h = 0 \<or> wm = w"
  shows "is_shape2 (h + ph) (wm + pw) (pad_band ph pw wm bnd)"
  using assms by (auto simp: is_shape2_def pad_band_def list_all_iff)

lemma pad_band_nth:
  assumes "is_shape2 h w bnd" and "h = 0 \<or> wm = w" and "y < h + ph" and "x < wm + pw"
  shows "pad_band ph pw wm bnd ! y ! x = (if y < h \<and> x < w then bnd ! y ! x else 0)"
proof (cases "y < h")
  case True
  then have len: "length (bnd ! y) = w" and wm: "wm = w"
    using assms is_shape2_nth by auto
  from True assms(1) have "pad_band ph pw wm bnd ! y = bnd ! y @ replicate pw 0"
    by (simp add: pad_band_def is_shape2_def nth_append)
  with len wm assms(4) show ?thesis
    using True by (simp add: nth_append)
next
  case False
  with assms have "pad_band ph pw wm bnd ! y = replicate (wm + pw) 0"
    by (simp add: pad_band_def is_shape2_def nth_append)
  with False assms(4) show ?thesis by simp
qed

lemma window_at_nth:
  assumes "c < length im" and "y < t" and "r + y < length (im ! c)"
    and "x < t" and "q + x < length (im ! c ! (r + y))"
  shows "window_at t r q im ! c ! y ! x = im ! c ! (r + y) ! (q + x)"
proof -
  have "r \<le> length (im ! c)" and "y < length (drop r (im ! c))"
    using assms(3) by simp_all
  then have row: "take t (drop r (im ! c)) ! y = im ! c ! (r + y)"
    using assms(2) by simp
  have "q \<le> length (im ! c ! (r + y))" using assms(5) by simp
  then have "take t (drop q (im ! c ! (r + y))) ! x = im ! c ! (r + y) ! (q + x)"
    using assms(4) by simp
  with row assms(1,2,3) show ?thesis
    by (simp add: window_at_def)
qed

lemma window_at_shape:
  assumes "is_shape3 c side side im" and "r + t \<le> side" and "q + t \<le> side"
  shows "is_shape3 c t t (window_at t r q im)"
  using assms
  by (auto simp: is_shape3_def is_shape2_def window_at_def list_all_iff dest!: in_set_takeD in_set_dropD)

lemma every_nth_index_bound:
  assumes "0 < k" and "j < (m + k - 1) div k"
  shows "j * k < (m::nat)"
proof (rule ccontr)
  assume "\<not> j * k < m"
  then have "m + k - 1 < (j + 1) * k" using assms(1) by simp
  then have "(m + k - 1) div k < j + 1"
    using assms(1) by (simp add: div_less_iff_less_mult)
  with assms(2) show False by simp
qed

lemma concat_grid:
  "concat (map (\<lambda>j. map (\<lambda>j'. f j j') [0 ..< n]) [0 ..< n]) =
     map (\<lambda>i. f (i div n) (i mod n)) [0 ..< n * n]"
proof (rule nth_equalityI)
  have len: "length (concat (map (\<lambda>j. map (\<lambda>j'. f j j') [0 ..< n]) [0 ..< n])) = n * n"
  proof -
    have "length (concat (map (\<lambda>j. map (\<lambda>j'. f j j') [0 ..< n]) [0 ..< n])) =
        length (map (\<lambda>j. map (\<lambda>j'. f j j') [0 ..< n]) [0 ..< n]) * n"
      by (rule length_concat_uniform) auto
    then show ?thesis by simp
  qed
  then show "length (concat (map (\<lambda>j. map (\<lambda>j'. f j j') [0 ..< n]) [0 ..< n])) =
      length (map (\<lambda>i. f (i div n) (i mod n)) [0 ..< n * n])"
    by simp
  fix i
  assume "i < length (concat (map (\<lambda>j. map (\<lambda>j'. f j j') [0 ..< n]) [0 ..< n]))"
  with len have i: "i < n * n" by simp
  then have n: "0 < n" by (cases n) auto
  have d: "i div n < n" using i n by (simp add: less_mult_imp_div_less)
  have m: "i mod n < n" using n by simp
  have "concat (map (\<lambda>j. map (\<lambda>j'. f j j') [0 ..< n]) [0 ..< n]) ! (i div n * n + i mod n) =
      map (\<lambda>j. map (\<lambda>j'. f j j') [0 ..< n]) [0 ..< n] ! (i div n) ! (i mod n)"
    by (rule nth_concat_uniform) (use d m in auto)
  then show "concat (map (\<lambda>j. map (\<lambda>j'. f j j') [0 ..< n]) [0 ..< n]) ! i =
      map (\<lambda>i. f (i div n) (i mod n)) [0 ..< n * n] ! i"
    using d m i by simp
qed

lemma sliced_grid:
  assumes "0 < k"
  shows "concat (map (every_nth k) (every_nth k (map (\<lambda>r. map (\<lambda>q. f r q) [0 ..< m]) [0 ..< m]))) =
     map (\<lambda>i. f (i div ((m + k - 1) div k) * k) (i mod ((m + k - 1) div k) * k))
         [0 ..< (m + k - 1) div k * ((m + k - 1) div k)]"
proof -
  let ?n = "(m + k - 1) div k"
  have rows: "every_nth k (map (\<lambda>r. map (\<lambda>q. f r q) [0 ..< m]) [0 ..< m]) =
      map (\<lambda>j. map (\<lambda>q. f (j * k) q) [0 ..< m]) [0 ..< ?n]"
    using every_nth_index_bound [OF assms] by (simp add: every_nth_def)
  have cols: "every_nth k (map (\<lambda>q. f r q) [0 ..< m]) = map (\<lambda>j'. f r (j' * k)) [0 ..< ?n]" for r
    using every_nth_index_bound [OF assms] by (simp add: every_nth_def)
  have "concat (map (every_nth k) (every_nth k (map (\<lambda>r. map (\<lambda>q. f r q) [0 ..< m]) [0 ..< m]))) =
      concat (map (\<lambda>j. map (\<lambda>j'. f (j * k) (j' * k)) [0 ..< ?n]) [0 ..< ?n])"
    by (simp add: rows cols comp_def)
  also have "\<dots> = map (\<lambda>i. f (i div ?n * k) (i mod ?n * k)) [0 ..< ?n * ?n]"
    by (rule concat_grid)
  finally show ?thesis .
qed

lemma first_len_shape3:
  assumes "is_shape3 c h w im" and "0 < c"
  shows "first_len im = h"
  using assms by (cases im) (auto simp: is_shape3_def is_shape2_def)

lemma first_len_concat_shape3:
  assumes "is_shape3 c h w im" and "0 < c" and "0 < h"
  shows "first_len (concat im) = w"
proof -
  from assms obtain b bs where im: "im = b # bs" by (cases im) (auto simp: is_shape3_def)
  with assms have b: "is_shape2 h w b" by (simp add: is_shape3_def)
  with assms(3) obtain r rs where "b = r # rs" by (cases b) (auto simp: is_shape2_def)
  with b im show ?thesis by (simp add: is_shape2_def)
qed

lemma n_side_nat:
  assumes "0 < ov" and "t \<le> T" and "0 < t"
  shows "(nat T - nat t + 1 + nat ov - 1) div nat ov = nat (n_side T t ov)"
proof -
  have "nat T - nat t = nat (T - t)" using assms(2,3) by simp
  moreover have "nat ((T - t) div ov) = nat (T - t) div nat ov"
    using assms by (simp add: nat_div_distrib)
  moreover have "0 \<le> (T - t) div ov" using assms by (simp add: pos_imp_zdiv_nonneg_iff)
  ultimately show ?thesis
    using assms by (simp add: n_side_def nat_add_distrib)
qed

lemma tile_array_item:
  assumes "is_shape3 c h w im" and "0 < c" and "int h \<le> T" and "h = 0 \<or> int w \<le> T"
    and "0 < t" and "t \<le> T" and "0 < ov"
  shows "tile_array [im] t ov T =
     Inr (map (\<lambda>i. window_at (nat t) (i div nat (n_side T t ov) * nat ov)
                      (i mod nat (n_side T t ov) * nat ov) (pad_image T im))
              [0 ..< nat (n_side T t ov) * nat (n_side T t ov)])"
proof -
  have h: "first_len im = h" using assms(1,2) by (rule first_len_shape3)
  have wm: "int (first_len (concat im)) \<le> T"
  proof (cases "0 < h")
    case True
    with assms show ?thesis by (simp add: first_len_concat_shape3 [OF assms(1,2)])
  next
    case False
    with assms(1) have "concat im = []" by (auto simp: is_shape3_def is_shape2_def list_all_iff)
    then have "first_len (concat im) = 0" by (simp only: first_len.simps)
    with assms(5,6) show ?thesis by simp
  qed
  have c: "length im = c" using assms(1) by (simp add: is_shape3_def)
  have ss: "slice_step ov xs = every_nth (nat ov) xs" for xs :: "'a list"
    using assms(7) by (simp add: slice_step_def)
  have n: "(nat T - nat t + 1 + nat ov - 1) div nat ov = nat (n_side T t ov)"
    using assms(7,6,5) by (rule n_side_nat)
  have "concat (map (every_nth (nat ov)) (every_nth (nat ov)
          (map (\<lambda>r. map (\<lambda>q. window_at (nat t) r q (pad_image T im)) [0 ..< nat T - nat t + 1])
               [0 ..< nat T - nat t + 1]))) =
      map (\<lambda>i. window_at (nat t)
                 (i div ((nat T - nat t + 1 + nat ov - 1) div nat ov) * nat ov)
                 (i mod ((nat T - nat t + 1 + nat ov - 1) div nat ov) * nat ov) (pad_image T im))
          [0 ..< (nat T - nat t + 1 + nat ov - 1) div nat ov *
                 ((nat T - nat t + 1 + nat ov - 1) div nat ov)]"
    by (rule sliced_grid) (use assms(7) in simp)
  then have grid: "concat (map (slice_step ov)
        (slice_step ov (sliding_window_view (nat T) (nat t) (pad_image T im)))) =
      map (\<lambda>i. window_at (nat t) (i div nat (n_side T t ov) * nat ov)
                      (i mod nat (n_side T t ov) * nat ov) (pad_image T im))
              [0 ..< nat (n_side T t ov) * nat (n_side T t ov)]"
    unfolding n sliding_window_view_def ss [abs_def] by (simp only: ss)
  show ?thesis
    using assms(2,3,4,5,6,7) h wm c grid
    by (simp add: tile_array_def Let_def pad_image_def)
qed

lemma pad_image_shape:
  assumes "is_shape3 c h w im" and "0 < c" and "int h \<le> T" and "h = 0 \<or> int w \<le> T" and "0 \<le> T"
  shows "is_shape3 c (nat T) (nat T) (pad_image T im)"
proof -
  have h: "first_len im = h" using assms(1,2) by (rule first_len_shape3)
  have w: "h = 0 \<or> first_len (concat im) = w"
    using first_len_concat_shape3 [OF assms(1,2)] by auto
  have wm: "int (first_len (concat im)) \<le> T"
  proof (cases "0 < h")
    case True
    with assms show ?thesis by (simp add: first_len_concat_shape3 [OF assms(1,2)])
  next
    case False
    with assms(1) have "concat im = []" by (auto simp: is_shape3_def is_shape2_def list_all_iff)
    then have "first_len (concat im) = 0" by (simp only: first_len.simps)
    with assms(5) show ?thesis by simp
  qed
  have "is_shape2 (nat T) (nat T) (pad_band (nat (T - int h)) (nat (T - int (first_len (concat im))))
          (first_len (concat im)) b)" if "b \<in> set im" for b
  proof -
    from that assms(1) have b: "is_shape2 h w b" by (simp add: is_shape3_def list_all_iff)
    have "is_shape2 (h + nat (T - int h)) (first_len (concat im) + nat (T - int (first_len (concat im))))
        (pad_band (nat (T - int h)) (nat (T - int (first_len (concat im)))) (first_len (concat im)) b)"
      using b w by (rule pad_band_shape)
    moreover have "h + nat (T - int h) = nat T" using assms(3) by simp
    moreover have "first_len (concat im) + nat (T - int (first_len (concat im))) = nat T"
      using wm by simp
    ultimately show ?thesis by simp
  qed
  then show ?thesis
    using assms(1) by (simp add: pad_image_def h is_shape3_def list_all_iff)
qed

lemma pad_image_pixel:
  assumes "is_shape3 c h w im" and "0 < c" and "int h \<le> T" and "h = 0 \<or> int w \<le> T"
    and "ch < c" and "y < nat T" and "x < nat T"
  shows "pad_image T im ! ch ! y ! x = padded_pixel im ch y x"
proof -
  have h: "first_len im = h" using assms(1,2) by (rule first_len_shape3)
  have w: "h = 0 \<or> first_len (concat im) = w"
    using first_len_concat_shape3 [OF assms(1,2)] by auto
  have T: "0 \<le> T" using assms(6) by simp
  have wm: "int (first_len (concat im)) \<le> T"
  proof (cases "0 < h")
    case True
    with assms show ?thesis by (simp add: first_len_concat_shape3 [OF assms(1,2)])
  next
    case False
    with assms(1) have "concat im = []" by (auto simp: is_shape3_def is_shape2_def list_all_iff)
    then have "first_len (concat im) = 0" by (simp only: first_len.simps)
    with T show ?thesis by simp
  qed
  have c: "length im = c" using assms(1) by (simp add: is_shape3_def)
  have b: "is_shape2 h w (im ! ch)" using assms(1,5) by (rule is_shape3_nth)
  have "pad_band (nat (T - int h)) (nat (T - int (first_len (concat im)))) (first_len (concat im))
      (im ! ch) ! y ! x = (if y < h \<and> x < w then im ! ch ! y ! x else 0)"
    using b w
  proof (rule pad_band_nth)
    show "y < h + nat (T - int h)" using assms(3,6) by simp
    show "x < first_len (concat im) + nat (T - int (first_len (concat im)))"
      using wm assms(7) by simp
  qed
  moreover have "padded_pixel im ch y x = (if y < h \<and> x < w then im ! ch ! y ! x else 0)"
    using b c assms(5) is_shape2_nth [OF b, of y]
    by (auto simp: padded_pixel_def is_shape2_def)
  ultimately show ?thesis
    using assms(5) c by (simp add: pad_image_def h)
qed

lemma tile_offset_bound:
  assumes "0 < ov" and "0 < t" and "t \<le> T" and "j < nat (n_side T t ov)"
  shows "j * nat ov + nat t \<le> nat T"
proof -
  have j: "j < (nat T - nat t + 1 + nat ov - 1) div nat ov"
    using assms by (simp only: n_side_nat [OF assms(1,3,2)])
  have k: "0 < nat ov" using assms(1) by simp
  from k j have "j * nat ov < nat T - nat t + 1"
    by (rule every_nth_index_bound)
  moreover have "nat t \<le> nat T" using assms(3) by simp
  ultimately show ?thesis by simp
qed

lemma tile_window_pixel:
  assumes "is_shape3 c h w im" and "0 < c" and "int h \<le> T" and "h = 0 \<or> int w \<le> T"
    and "0 < t" and "t \<le> T" and "0 < ov"
    and "r < nat (n_side T t ov)" and "q < nat (n_side T t ov)"
    and "ch < c" and "y < nat t" and "x < nat t"
  shows "window_at (nat t) (r * nat ov) (q * nat ov) (pad_image T im) ! ch ! y ! x =
           padded_pixel im ch (r * nat ov + y) (q * nat ov + x)"
proof -
  have T: "0 \<le> T" using assms(5,6) by simp
  have sh: "is_shape3 c (nat T) (nat T) (pad_image T im)"
    using assms(1,2,3,4) T by (rule pad_image_shape)
  have rb: "r * nat ov + nat t \<le> nat T" using assms(7,5,6,8) by (rule tile_offset_bound)
  have qb: "q * nat ov + nat t \<le> nat T" using assms(7,5,6,9) by (rule tile_offset_bound)
  have len: "length (pad_image T im) = c" using sh by (simp add: is_shape3_def)
  have b: "is_shape2 (nat T) (nat T) (pad_image T im ! ch)" using sh assms(10) by (rule is_shape3_nth)
  have ry: "r * nat ov + y < nat T" using rb assms(11) by simp
  have qx: "q * nat ov + x < nat T" using qb assms(12) by simp
  have "window_at (nat t) (r * nat ov) (q * nat ov) (pad_image T im) ! ch ! y ! x =
      pad_image T im ! ch ! (r * nat ov + y) ! (q * nat ov + x)"
  proof (rule window_at_nth)
    show "ch < length (pad_image T im)" using len assms(10) by simp
    show "y < nat t" by fact
    show "r * nat ov + y < length (pad_image T im ! ch)" using b ry by (simp add: is_shape2_def)
    show "x < nat t" by fact
    show "q * nat ov + x < length (pad_image T im ! ch ! (r * nat ov + y))"
      using is_shape2_nth [OF b ry] qx by simp
  qed
  also have "\<dots> = padded_pixel im ch (r * nat ov + y) (q * nat ov + x)"
    using assms(1,2,3,4,10) ry qx by (rule pad_image_pixel)
  finally show ?thesis .
qed

lemma tile_window_shape:
  assumes "is_shape3 c h w im" and "0 < c" and "int h \<le> T" and "h = 0 \<or> int w \<le> T"
    and "0 < t" and "t \<le> T" and "0 < ov"
    and "r < nat (n_side T t ov)" and "q < nat (n_side T t ov)"
  shows "is_shape3 c (nat t) (nat t) (window_at (nat t) (r * nat ov) (q * nat ov) (pad_image T im))"
proof -
  have T: "0 \<le> T" using assms(5,6) by simp
  have sh: "is_shape3 c (nat T) (nat T) (pad_image T im)"
    using assms(1,2,3,4) T by (rule pad_image_shape)
  have rb: "r * nat ov + nat t \<le> nat T" using assms(7,5,6,8) by (rule tile_offset_bound)
  have qb: "q * nat ov + nat t \<le> nat T" using assms(7,5,6,9) by (rule tile_offset_bound)
  from sh rb qb show ?thesis by (rule window_at_shape)
qed

section \<open>The Tiler on a packed store\<close>

lemma range_len_pos_step:
  assumes "0 < ov" and "t \<le> T"
  shows "range_len (T - t + 1) ov = nat (n_side T t ov)"
proof -
  have "T - t + 1 + ov - 1 = T - t + ov" by simp
  then have "(T - t + 1 + ov - 1) div ov = (T - t + ov) div ov" by (simp only:)
  also have "\<dots> = (T - t) div ov + 1" using assms(1) by simp
  finally show ?thesis using assms(1) by (simp add: range_len_def n_side_def)
qed

lemma range_len_neg_step:
  assumes "ov < 0" and "0 < stop"
  shows "range_len stop ov = 0"
proof -
  have "(stop + ov + 1) div ov \<le> 0"
  proof (cases "0 < stop + ov + 1")
    case True
    with assms(1) have "(stop + ov + 1) div ov < 0" by (simp add: neg_imp_zdiv_neg_iff)
    then show ?thesis by simp
  next
    case False
    then have "stop + ov + 1 \<le> 0" by simp
    moreover have "ov < stop + ov + 1" using assms(2) by simp
    ultimately have "(stop + ov + 1) div ov = 0" by (rule div_neg_neg_trivial)
    then show ?thesis by simp
  qed
  with assms(1) show ?thesis by (simp add: range_len_def)
qed

lemma n_side_pos:
  assumes "0 < ov" and "t \<le> T"
  shows "0 < n_side T t ov"
proof -
  have "0 \<le> (T - t) div ov" using assms by (simp add: pos_imp_zdiv_nonneg_iff)
  then show ?thesis by (simp add: n_side_def)
qed

lemma n_tiles_nat:
  assumes "0 < ov" and "t \<le> T"
  shows "nat (n_tiles_of T t ov) = nat (n_side T t ov) * nat (n_side T t ov)"
  using n_side_pos [OF assms] by (simp add: n_tiles_of_def power2_eq_square nat_mult_distrib)

lemma tile_one_affine_grid:
  assumes "0 < ov" and "t \<le> T"
  shows "tile_one_affine a T t ov =
     Inr (map (\<lambda>i. affine_from_rowcol a (int (i div nat (n_side T t ov)) * ov)
                                         (int (i mod nat (n_side T t ov)) * ov))
              [0 ..< nat (n_side T t ov) * nat (n_side T t ov)])"
proof -
  let ?n = "nat (n_side T t ov)"
  have r: "py_range (T - t + 1) ov = Inr (map (\<lambda>k. int k * ov) [0 ..< ?n])"
    using assms by (simp add: py_range_def range_len_pos_step)
  have "concat (map (\<lambda>row. map (\<lambda>col. affine_from_rowcol a row col) (map (\<lambda>k. int k * ov) [0 ..< ?n]))
                    (map (\<lambda>k. int k * ov) [0 ..< ?n])) =
        concat (map (\<lambda>j. map (\<lambda>j'. affine_from_rowcol a (int j * ov) (int j' * ov)) [0 ..< ?n]) [0 ..< ?n])"
    by (simp add: comp_def del: affine_from_rowcol.simps)
  also have "\<dots> = map (\<lambda>i. affine_from_rowcol a (int (i div ?n) * ov) (int (i mod ?n) * ov)) [0 ..< ?n * ?n]"
    by (rule concat_grid)
  finally show ?thesis
    by (simp add: tile_one_affine_def r del: affine_from_rowcol.simps)
qed

lemma tile_one_affine_empty:
  assumes "ov < 0" and "t \<le> T"
  shows "tile_one_affine a T t ov = Inr []"
proof -
  have "range_len (T - t + 1) ov = 0" using assms by (simp add: range_len_neg_step)
  with assms(1) show ?thesis by (simp add: tile_one_affine_def py_range_def)
qed

lemma map3_shape:
  assumes "is_shape3 c h w im"
  shows "is_shape3 c h w (map (map (map f)) im)"
  using assms by (auto simp: is_shape3_def is_shape2_def list_all_iff)

lemma tile_array_Inr_params:
  assumes "tile_array [im] t ov T = Inr ts" and "is_shape3 c h w im"
  shows "0 < c \<and> int h \<le> T \<and> (h = 0 \<or> int w \<le> T) \<and> 0 < t \<and> t \<le> T \<and> ov \<noteq> 0"
proof -
  have len: "length im = c" using assms(2) by (simp add: is_shape3_def)
  from assms(1) have a: "\<not> T - int (first_len im) < 0" "\<not> T - int (first_len (concat im)) < 0"
      "\<not> t < 0" "\<not> T < t" "ov \<noteq> 0" "im \<noteq> []" "t \<noteq> 0"
    by (simp_all add: tile_array_def Let_def split: if_splits)
  from a(6) len have c: "0 < c" by auto
  have h: "first_len im = h" using assms(2) c by (rule first_len_shape3)
  have "h = 0 \<or> int w \<le> T"
  proof (cases "0 < h")
    case True
    with a(2) first_len_concat_shape3 [OF assms(2) c] show ?thesis by simp
  next
    case False
    then show ?thesis by simp
  qed
  with a(1,3,4,5,7) c h show ?thesis by simp
qed

lemma tile_img_h5_CompleteD:
  assumes "tile_img_h5 src t ov T cs = (None, Complete dst)"
  shows "\<exists>plan. tile_prepare src t ov T = Inr plan \<and> tile_write src t ov T cs plan = Inr dst"
  using assms by (auto simp: tile_img_h5_def split: sum.splits)

lemma tile_prepareD:
  assumes "tile_prepare src t ov T = Inr plan"
  shows "list_all is_Lbl2 (lbl src) \<and> ov \<noteq> 0 \<and>
     (\<exists>pt et aft. plan = (n_tiles_of T t ov, pt, et, aft) \<and>
        tile_paths (path src) (n_tiles_of T t ov) (int (length (img src)) * n_tiles_of T t ov) = Inr pt \<and>
        tile_epsgs (epsg src) (n_tiles_of T t ov) (int (length (img src)) * n_tiles_of T t ov) = Inr et \<and>
        tile_affines (affine src) T t ov (int (length (img src)) * n_tiles_of T t ov) = Inr aft)"
  using assms by (auto simp: tile_prepare_def Let_def split: if_splits sum.splits)

lemma tile_writeD:
  assumes "tile_write src t ov T cs (nt, pt, et, aft) = Inr dst"
  shows "0 < cs \<and> cs \<le> int (length (img src)) * nt \<and>
     (\<exists>ib lb.
        sequence_r (map (\<lambda>im. tile_array [map (map (map astype_int16)) im] t ov T) (img src)) = Inr ib \<and>
        sequence_r (map (\<lambda>l. tile_array [[map (map astype_int16) (lbl_band l)]] t ov T) (lbl src)) = Inr lb \<and>
        dst = \<lparr>img = concat ib, lbl = map Lbl3 (concat lb), path = pt, epsg = et, affine = aft,
               img_means = map float_to_int16 (img_means src),
               img_stds = map float_to_int16 (img_stds src)\<rparr>)"
  using assms by (auto simp: tile_write_def split: if_splits sum.splits)

lemma tile_affines_value:
  assumes "\<And>a. tile_one_affine a T t ov = Inr (g a)"
  shows "tile_affines affs T t ov rows =
     (if rows \<noteq> int (length (concat (map g affs))) then Inl AssertionError
      else Inr (concat (map g affs)))"
proof -
  have "sequence_r (map (\<lambda>a. tile_one_affine a T t ov) affs) = Inr (map g affs)"
    by (rule sequence_r_all_Inr) (rule assms)
  then show ?thesis by (simp add: tile_affines_def Let_def)
qed

lemma concat_map_Nil: "concat (map (\<lambda>a. []) xs) = []"
  by (induction xs) simp_all

lemma packed_storeD:
  assumes "packed_store N C H W src"
  shows "length (img src) = N" and "\<And>im. im \<in> set (img src) \<Longrightarrow> is_shape3 C H W im"
    and "length (lbl src) = N"
    and "\<And>l. l \<in> set (lbl src) \<Longrightarrow> \<exists>b. l = Lbl2 b \<and> is_shape2 H W b"
    and "length (path src) = N" and "length (epsg src) = N" and "length (affine src) = N"
    and "length (img_means src) = C" and "length (img_stds src) = C"
proof -
  from assms show "length (img src) = N" "length (lbl src) = N" "length (path src) = N"
    "length (epsg src) = N" "length (affine src) = N"
    "length (img_means src) = C" "length (img_stds src) = C"
    by (simp_all add: packed_store_def store_shape_def is_shape4_def)
  show "is_shape3 C H W im" if "im \<in> set (img src)" for im
    using assms that by (simp add: packed_store_def store_shape_def is_shape4_def list_all_iff)
  show "\<exists>b. l = Lbl2 b \<and> is_shape2 H W b" if "l \<in> set (lbl src)" for l
  proof -
    from assms that have "lbl_has_shape [H, W] l"
      by (simp add: packed_store_def store_shape_def list_all_iff)
    then show ?thesis by (cases l) simp_all
  qed
qed

lemma tile_success_params:
  assumes ok: "tile_img_h5 src t ov T cs = (None, Complete dst)"
    and sh: "packed_store N C H W src"
  shows "0 < ov \<and> 0 < t \<and> t \<le> T \<and> 0 < N \<and> 0 < C \<and> int H \<le> T \<and> (H = 0 \<or> int W \<le> T)"
proof -
  let ?nt = "n_tiles_of T t ov"
  from ok obtain plan where prep: "tile_prepare src t ov T = Inr plan"
    and wr: "tile_write src t ov T cs plan = Inr dst"
    using tile_img_h5_CompleteD by blast
  from tile_prepareD [OF prep] obtain pt et aft where plan: "plan = (?nt, pt, et, aft)"
    and aff: "tile_affines (affine src) T t ov (int (length (img src)) * ?nt) = Inr aft"
    by blast
  from tile_writeD [OF wr [unfolded plan]] obtain ib where
    cs: "0 < cs" "cs \<le> int (length (img src)) * ?nt"
    and ib: "sequence_r (map (\<lambda>im. tile_array [map (map (map astype_int16)) im] t ov T) (img src)) = Inr ib"
    by blast
  have N: "length (img src) = N" using sh by (rule packed_storeD)
  have rows: "0 < int N * ?nt" using cs N by simp
  then have Npos: "0 < N" by (cases N) auto
  then have im0: "img src ! 0 \<in> set (img src)" using N by simp
  from sequence_r_map_Inr [OF ib] Npos N
  have "tile_array [map (map (map astype_int16)) (img src ! 0)] t ov T = Inr (ib ! 0)" by simp
  moreover have "is_shape3 C H W (map (map (map astype_int16)) (img src ! 0))"
    using packed_storeD(2) [OF sh im0] by (rule map3_shape)
  ultimately have par: "0 < C \<and> int H \<le> T \<and> (H = 0 \<or> int W \<le> T) \<and> 0 < t \<and> t \<le> T \<and> ov \<noteq> 0"
    by (rule tile_array_Inr_params)
  have "\<not> ov < 0"
  proof
    assume neg: "ov < 0"
    have e: "tile_one_affine a T t ov = Inr ((\<lambda>a. []) a)" for a
      using neg par by (simp add: tile_one_affine_empty)
    have ta: "tile_affines (affine src) T t ov (int (length (img src)) * ?nt) =
        (if int (length (img src)) * ?nt \<noteq> 0 then Inl AssertionError else Inr [])"
      using tile_affines_value [of T t ov "\<lambda>a. []", OF e] by (simp add: concat_map_Nil)
    have nz: "int (length (img src)) * ?nt \<noteq> 0"
    proof
      assume "int (length (img src)) * ?nt = 0"
      with rows N show False by (simp only: less_irrefl)
    qed
    then have "(if int (length (img src)) * ?nt \<noteq> 0 then Inl AssertionError else Inr []) =
        (Inl AssertionError :: error + geotransform list)"
      by (rule if_P)
    with ta have "tile_affines (affine src) T t ov (int (length (img src)) * ?nt) = Inl AssertionError"
      by (simp only:)
    with aff show False by simp
  qed
  with par Npos show ?thesis by simp
qed

lemma tile_success_store:
  assumes ok: "tile_img_h5 src t ov T cs = (None, Complete dst)"
    and sh: "packed_store N C H W src"
  shows "img dst = concat (map (\<lambda>im. tiles_of t ov T (map (map (map astype_int16)) im)) (img src))"
    and "lbl dst = map Lbl3 (concat (map (\<lambda>l. tiles_of t ov T [map (map astype_int16) (lbl_band l)])
                                         (lbl src)))"
    and "path dst = concat (map (\<lambda>p. map (\<lambda>i. p @ ''_'' @
                zero_pad (length (str_nat (nat (n_tiles_of T t ov)))) (str_nat i))
                [0 ..< nat (n_tiles_of T t ov)]) (path src))"
    and "epsg dst = concat (map (replicate (nat (n_tiles_of T t ov))) (epsg src))"
    and "affine dst = concat (map (tile_geotransforms t ov T) (affine src))"
    and "img_means dst = map float_to_int16 (img_means src)"
    and "img_stds dst = map float_to_int16 (img_stds src)"
proof -
  let ?nt = "n_tiles_of T t ov"
  from tile_success_params [OF ok sh]
  have par: "0 < ov" "0 < t" "t \<le> T" "0 < N" "0 < C" "int H \<le> T" "H = 0 \<or> int W \<le> T"
    by simp_all
  from ok obtain plan where prep: "tile_prepare src t ov T = Inr plan"
    and wr: "tile_write src t ov T cs plan = Inr dst"
    using tile_img_h5_CompleteD by blast
  from tile_prepareD [OF prep] obtain pt et aft where plan: "plan = (?nt, pt, et, aft)"
    and pth: "tile_paths (path src) ?nt (int (length (img src)) * ?nt) = Inr pt"
    and eps: "tile_epsgs (epsg src) ?nt (int (length (img src)) * ?nt) = Inr et"
    and aff: "tile_affines (affine src) T t ov (int (length (img src)) * ?nt) = Inr aft"
    by blast
  from tile_writeD [OF wr [unfolded plan]] obtain ib lb where
    ib: "sequence_r (map (\<lambda>im. tile_array [map (map (map astype_int16)) im] t ov T) (img src)) = Inr ib"
    and lb: "sequence_r (map (\<lambda>l. tile_array [[map (map astype_int16) (lbl_band l)]] t ov T) (lbl src)) = Inr lb"
    and dst: "dst = \<lparr>img = concat ib, lbl = map Lbl3 (concat lb), path = pt, epsg = et, affine = aft,
               img_means = map float_to_int16 (img_means src),
               img_stds = map float_to_int16 (img_stds src)\<rparr>"
    by blast
  have "tile_array [map (map (map astype_int16)) im] t ov T =
      Inr (tiles_of t ov T (map (map (map astype_int16)) im))" if "im \<in> set (img src)" for im
  proof -
    have "is_shape3 C H W (map (map (map astype_int16)) im)"
      using packed_storeD(2) [OF sh that] by (rule map3_shape)
    then show ?thesis
      unfolding tiles_of_def using par(5,6,7,2,3,1) by (rule tile_array_item)
  qed
  then have "sequence_r (map (\<lambda>im. tile_array [map (map (map astype_int16)) im] t ov T) (img src)) =
      Inr (map (\<lambda>im. tiles_of t ov T (map (map (map astype_int16)) im)) (img src))"
    by (rule sequence_r_all_Inr)
  with ib have ib': "ib = map (\<lambda>im. tiles_of t ov T (map (map (map astype_int16)) im)) (img src)"
    by simp
  have "tile_array [[map (map astype_int16) (lbl_band l)]] t ov T =
      Inr (tiles_of t ov T [map (map astype_int16) (lbl_band l)])" if "l \<in> set (lbl src)" for l
  proof -
    from packed_storeD(4) [OF sh that] obtain b where b: "l = Lbl2 b" "is_shape2 H W b" by blast
    then have "is_shape3 1 H W [map (map astype_int16) (lbl_band l)]"
      by (auto simp: is_shape3_def is_shape2_def list_all_iff)
    then show ?thesis
      unfolding tiles_of_def using _ par(6,7,2,3,1) by (rule tile_array_item) simp
  qed
  then have "sequence_r (map (\<lambda>l. tile_array [[map (map astype_int16) (lbl_band l)]] t ov T) (lbl src)) =
      Inr (map (\<lambda>l. tiles_of t ov T [map (map astype_int16) (lbl_band l)]) (lbl src))"
    by (rule sequence_r_all_Inr)
  with lb have lb': "lb = map (\<lambda>l. tiles_of t ov T [map (map astype_int16) (lbl_band l)]) (lbl src)"
    by simp
  have "tile_one_affine a T t ov = Inr (tile_geotransforms t ov T a)" for a
    unfolding tile_geotransforms_def using par(1,3) by (rule tile_one_affine_grid)
  then have "tile_affines (affine src) T t ov (int (length (img src)) * ?nt) =
      (if int (length (img src)) * ?nt \<noteq> int (length (concat (map (tile_geotransforms t ov T) (affine src))))
       then Inl AssertionError else Inr (concat (map (tile_geotransforms t ov T) (affine src))))"
    by (rule tile_affines_value)
  with aff have aft': "aft = concat (map (tile_geotransforms t ov T) (affine src))"
    by (simp split: if_splits)
  from pth have pt': "pt = concat (map (\<lambda>p. map (\<lambda>i. p @ ''_'' @
                zero_pad (length (str_nat (nat ?nt))) (str_nat i)) [0 ..< nat ?nt]) (path src))"
    by (simp add: tile_paths_def Let_def split: if_splits del: str_nat.simps)
  from eps have et': "et = concat (map (replicate (nat ?nt)) (epsg src))"
    by (simp add: tile_epsgs_def Let_def split: if_splits)
  show "img dst = concat (map (\<lambda>im. tiles_of t ov T (map (map (map astype_int16)) im)) (img src))"
    by (simp add: dst ib')
  show "lbl dst = map Lbl3 (concat (map (\<lambda>l. tiles_of t ov T [map (map astype_int16) (lbl_band l)])
                                         (lbl src)))"
    by (simp add: dst lb')
  show "path dst = concat (map (\<lambda>p. map (\<lambda>i. p @ ''_'' @
                zero_pad (length (str_nat (nat (n_tiles_of T t ov)))) (str_nat i))
                [0 ..< nat (n_tiles_of T t ov)]) (path src))"
    by (simp add: dst pt' del: str_nat.simps)
  show "epsg dst = concat (map (replicate (nat (n_tiles_of T t ov))) (epsg src))"
    by (simp add: dst et')
  show "affine dst = concat (map (tile_geotransforms t ov T) (affine src))"
    by (simp add: dst aft')
  show "img_means dst = map float_to_int16 (img_means src)" by (simp add: dst)
  show "img_stds dst = map float_to_int16 (img_stds src)" by (simp add: dst)
qed

lemma astype_int16_zero: "astype_int16 0 = 0"
  by (simp add: astype_int16_def)

lemma padded_pixel_cast:
  "padded_pixel (map (map (map astype_int16)) im) c y x = astype_int16 (padded_pixel im c y x)"
proof (cases "c < length im \<and> y < length (im ! c) \<and> x < length (im ! c ! y)")
  case True
  then show ?thesis by (simp add: padded_pixel_def)
next
  case False
  then have "\<not> (c < length (map (map (map astype_int16)) im) \<and>
      y < length (map (map (map astype_int16)) im ! c) \<and>
      x < length (map (map (map astype_int16)) im ! c ! y))"
    by auto
  with False show ?thesis by (simp only: padded_pixel_def if_False astype_int16_zero)
qed

lemma length_tiles_of:
  "length (tiles_of t ov T im) = nat (n_side T t ov) * nat (n_side T t ov)"
  by (simp add: tiles_of_def)

lemma length_tile_geotransforms:
  "length (tile_geotransforms t ov T a) = nat (n_side T t ov) * nat (n_side T t ov)"
  by (simp add: tile_geotransforms_def)

lemma nth_concat_map_uniform:
  assumes "\<And>x. length (f x) = n" and "k < length xs" and "i < n"
  shows "concat (map f xs) ! (k * n + i) = f (xs ! k) ! i"
proof -
  have "concat (map f xs) ! (k * n + i) = map f xs ! k ! i"
    by (rule nth_concat_uniform) (use assms in auto)
  with assms(2) show ?thesis by simp
qed

lemma length_concat_map_uniform:
  assumes "\<And>x. length (f x) = n"
  shows "length (concat (map f xs)) = length xs * n"
proof -
  have "length (concat (map f xs)) = length (map f xs) * n"
    by (rule length_concat_uniform) (use assms in auto)
  then show ?thesis by simp
qed

lemma tile_index_split:
  assumes "i < n * (n::nat)"
  shows "i div n < n" and "i mod n < n"
proof -
  from assms have n: "0 < n" by (cases n) auto
  show "i div n < n" using assms n by (simp add: less_mult_imp_div_less)
  show "i mod n < n" using n by simp
qed

text \<open>One tiled image row, pixel by pixel.\<close>

lemma tiled_img_pixel:
  assumes ok: "tile_img_h5 src t ov T cs = (None, Complete dst)"
    and sh: "packed_store N C H W src"
    and k: "k < N" and i: "i < nat (n_tiles_of T t ov)"
    and c: "c < C" and y: "y < nat t" and x: "x < nat t"
  shows "img dst ! (k * nat (n_tiles_of T t ov) + i) ! c ! y ! x =
     astype_int16 (padded_pixel (img src ! k) c
        (fst (tile_origin T t ov i) + y) (snd (tile_origin T t ov i) + x))"
    and "is_shape3 C (nat t) (nat t) (img dst ! (k * nat (n_tiles_of T t ov) + i))"
proof -
  let ?n = "nat (n_side T t ov)"
  let ?im = "map (map (map astype_int16)) (img src ! k)"
  from tile_success_params [OF ok sh]
  have par: "0 < ov" "0 < t" "t \<le> T" "0 < N" "0 < C" "int H \<le> T" "H = 0 \<or> int W \<le> T"
    by simp_all
  have nt: "nat (n_tiles_of T t ov) = ?n * ?n" using par(1,3) by (rule n_tiles_nat)
  have i': "i < ?n * ?n" using i nt by simp
  have d: "i div ?n < ?n" and m: "i mod ?n < ?n" using tile_index_split [OF i'] by simp_all
  have kN: "k < length (img src)" using k packed_storeD(1) [OF sh] by simp
  have shk: "is_shape3 C H W ?im"
    using packed_storeD(2) [OF sh, of "img src ! k"] kN by (simp add: map3_shape)
  have "img dst ! (k * (?n * ?n) + i) =
      tiles_of t ov T (map (map (map astype_int16)) (img src ! k)) ! i"
    unfolding tile_success_store(1) [OF ok sh]
    by (rule nth_concat_map_uniform) (use kN i' in \<open>simp_all add: length_tiles_of\<close>)
  then have row: "img dst ! (k * nat (n_tiles_of T t ov) + i) =
      window_at (nat t) (i div ?n * nat ov) (i mod ?n * nat ov) (pad_image T ?im)"
    using i' by (simp add: nt tiles_of_def)
  have "window_at (nat t) (i div ?n * nat ov) (i mod ?n * nat ov) (pad_image T ?im) ! c ! y ! x =
      padded_pixel ?im c (i div ?n * nat ov + y) (i mod ?n * nat ov + x)"
    using shk par(5,6,7,2,3,1) d m c y x by (rule tile_window_pixel)
  then show "img dst ! (k * nat (n_tiles_of T t ov) + i) ! c ! y ! x =
     astype_int16 (padded_pixel (img src ! k) c
        (fst (tile_origin T t ov i) + y) (snd (tile_origin T t ov i) + x))"
    by (simp add: row padded_pixel_cast tile_origin_def mult.commute)
  have "is_shape3 C (nat t) (nat t)
      (window_at (nat t) (i div ?n * nat ov) (i mod ?n * nat ov) (pad_image T ?im))"
    using shk par(5,6,7,2,3,1) d m by (rule tile_window_shape)
  then show "is_shape3 C (nat t) (nat t) (img dst ! (k * nat (n_tiles_of T t ov) + i))"
    by (simp add: row)
qed

lemma tiled_lbl_pixel:
  assumes ok: "tile_img_h5 src t ov T cs = (None, Complete dst)"
    and sh: "packed_store N C H W src"
    and k: "k < N" and i: "i < nat (n_tiles_of T t ov)"
    and y: "y < nat t" and x: "x < nat t"
  shows "lbl_band (lbl dst ! (k * nat (n_tiles_of T t ov) + i)) ! y ! x =
     astype_int16 (padded_pixel [lbl_band (lbl src ! k)] 0
        (fst (tile_origin T t ov i) + y) (snd (tile_origin T t ov i) + x))"
    and "lbl_has_shape [1, nat t, nat t] (lbl dst ! (k * nat (n_tiles_of T t ov) + i))"
proof -
  let ?n = "nat (n_side T t ov)"
  let ?im = "[map (map astype_int16) (lbl_band (lbl src ! k))]"
  from tile_success_params [OF ok sh]
  have par: "0 < ov" "0 < t" "t \<le> T" "0 < N" "0 < C" "int H \<le> T" "H = 0 \<or> int W \<le> T"
    by simp_all
  have nt: "nat (n_tiles_of T t ov) = ?n * ?n" using par(1,3) by (rule n_tiles_nat)
  have i': "i < ?n * ?n" using i nt by simp
  have d: "i div ?n < ?n" and m: "i mod ?n < ?n" using tile_index_split [OF i'] by simp_all
  have kN: "k < length (lbl src)" using k packed_storeD(3) [OF sh] by simp
  from packed_storeD(4) [OF sh, of "lbl src ! k"] kN obtain b where
    b: "lbl src ! k = Lbl2 b" "is_shape2 H W b" by auto
  have shk: "is_shape3 1 H W ?im"
    using b by (auto simp: is_shape3_def is_shape2_def list_all_iff)
  have cast: "?im = map (map (map astype_int16)) [lbl_band (lbl src ! k)]" by simp
  have len: "length (concat (map (\<lambda>l. tiles_of t ov T [map (map astype_int16) (lbl_band l)])
      (lbl src))) = length (lbl src) * (?n * ?n)"
    by (rule length_concat_map_uniform) (simp add: length_tiles_of)
  have r: "k * (?n * ?n) + i < length (lbl src) * (?n * ?n)"
  proof -
    have "k * (?n * ?n) + i < (k + 1) * (?n * ?n)" using i' by simp
    also have "\<dots> \<le> length (lbl src) * (?n * ?n)" using kN by (intro mult_le_mono1) simp
    finally show ?thesis .
  qed
  have "concat (map (\<lambda>l. tiles_of t ov T [map (map astype_int16) (lbl_band l)]) (lbl src)) !
        (k * (?n * ?n) + i) = tiles_of t ov T ?im ! i"
    by (rule nth_concat_map_uniform) (use kN i' in \<open>simp_all add: length_tiles_of\<close>)
  then have row: "lbl dst ! (k * nat (n_tiles_of T t ov) + i) =
      Lbl3 (window_at (nat t) (i div ?n * nat ov) (i mod ?n * nat ov) (pad_image T ?im))"
    unfolding tile_success_store(2) [OF ok sh] using i' r len
    by (simp add: nt tiles_of_def)
  have sh3: "is_shape3 1 (nat t) (nat t)
      (window_at (nat t) (i div ?n * nat ov) (i mod ?n * nat ov) (pad_image T ?im))"
    using shk _ par(6,7,2,3,1) d m by (rule tile_window_shape) simp
  then obtain tb where tb: "window_at (nat t) (i div ?n * nat ov) (i mod ?n * nat ov)
      (pad_image T ?im) = [tb]"
    by (auto simp: is_shape3_def length_Suc_conv)
  have "window_at (nat t) (i div ?n * nat ov) (i mod ?n * nat ov) (pad_image T ?im) ! 0 ! y ! x =
      padded_pixel ?im 0 (i div ?n * nat ov + y) (i mod ?n * nat ov + x)"
    using shk _ par(6,7,2,3,1) d m _ y x by (rule tile_window_pixel) simp_all
  moreover have "lbl_band (lbl dst ! (k * nat (n_tiles_of T t ov) + i)) =
      window_at (nat t) (i div ?n * nat ov) (i mod ?n * nat ov) (pad_image T ?im) ! 0"
    by (simp add: row tb)
  moreover have "fst (tile_origin T t ov i) = i div ?n * nat ov"
      "snd (tile_origin T t ov i) = i mod ?n * nat ov"
    by (simp_all add: tile_origin_def mult.commute)
  ultimately show "lbl_band (lbl dst ! (k * nat (n_tiles_of T t ov) + i)) ! y ! x =
     astype_int16 (padded_pixel [lbl_band (lbl src ! k)] 0
        (fst (tile_origin T t ov i) + y) (snd (tile_origin T t ov i) + x))"
    unfolding cast padded_pixel_cast by (simp only:)
  show "lbl_has_shape [1, nat t, nat t] (lbl dst ! (k * nat (n_tiles_of T t ov) + i))"
    using sh3 by (simp add: row)
qed


lemma tiled_store_shape:
  assumes ok: "tile_img_h5 src t ov T cs = (None, Complete dst)"
    and sh: "packed_store N C H W src"
  shows "spec_store (N * nat (n_tiles_of T t ov)) C (nat t) (nat t) dst"
proof -
  let ?n = "nat (n_side T t ov)"
  let ?nt = "nat (n_tiles_of T t ov)"
  from tile_success_params [OF ok sh]
  have par: "0 < ov" "0 < t" "t \<le> T" "0 < N" "0 < C" "int H \<le> T" "H = 0 \<or> int W \<le> T"
    by simp_all
  have nt: "?nt = ?n * ?n" using par(1,3) by (rule n_tiles_nat)
  have split: "\<exists>k i. r = k * ?nt + i \<and> k < N \<and> i < ?nt" if "r < N * ?nt" for r
  proof (intro exI conjI)
    from that have pos: "0 < ?nt" by (cases ?nt) auto
    show "r = r div ?nt * ?nt + r mod ?nt" by simp
    show "r div ?nt < N" using that pos by (simp add: less_mult_imp_div_less)
    show "r mod ?nt < ?nt" using pos by simp
  qed
  have li: "length (img dst) = N * ?nt"
    unfolding tile_success_store(1) [OF ok sh] nt
    using length_concat_map_uniform [of "\<lambda>im. tiles_of t ov T (map (map (map astype_int16)) im)"
        "?n * ?n" "img src"] packed_storeD(1) [OF sh]
    by (simp add: length_tiles_of)
  have ll: "length (lbl dst) = N * ?nt"
    unfolding tile_success_store(2) [OF ok sh] nt
    using length_concat_map_uniform [of "\<lambda>l. tiles_of t ov T [map (map astype_int16) (lbl_band l)]"
        "?n * ?n" "lbl src"] packed_storeD(3) [OF sh]
    by (simp add: length_tiles_of)
  have lp: "length (path dst) = N * ?nt"
    unfolding tile_success_store(3) [OF ok sh]
    using length_concat_map_uniform [of "\<lambda>p. map (\<lambda>i. p @ ''_'' @
        zero_pad (length (str_nat ?nt)) (str_nat i)) [0 ..< ?nt]" ?nt "path src"]
      packed_storeD(5) [OF sh]
    by simp
  have le: "length (epsg dst) = N * ?nt"
    unfolding tile_success_store(4) [OF ok sh]
    using length_concat_map_uniform [of "replicate ?nt" ?nt "epsg src"] packed_storeD(6) [OF sh]
    by simp
  have la: "length (affine dst) = N * ?nt"
    unfolding tile_success_store(5) [OF ok sh] nt
    using length_concat_map_uniform [of "tile_geotransforms t ov T" "?n * ?n" "affine src"]
      packed_storeD(7) [OF sh]
    by (simp add: length_tile_geotransforms)
  have si: "is_shape3 C (nat t) (nat t) (img dst ! r)" if "r < N * ?nt" for r
  proof -
    from split [OF that] obtain k i where "r = k * ?nt + i" "k < N" "i < ?nt" by blast
    with tiled_img_pixel(2) [OF ok sh, of k i 0 0 0] par(2,5) show ?thesis by simp
  qed
  have sl: "lbl_has_shape [1, nat t, nat t] (lbl dst ! r)" if "r < N * ?nt" for r
  proof -
    from split [OF that] obtain k i where "r = k * ?nt + i" "k < N" "i < ?nt" by blast
    with tiled_lbl_pixel(2) [OF ok sh, of k i 0 0] par(2) show ?thesis by simp
  qed
  have "is_shape4 (N * ?nt) C (nat t) (nat t) (img dst)"
    using li si by (simp add: is_shape4_def list_all_length)
  moreover have "list_all (lbl_has_shape [1, nat t, nat t]) (lbl dst)"
    using ll sl by (simp add: list_all_length)
  moreover have "length (img_means dst) = C" "length (img_stds dst) = C"
    using tile_success_store(6,7) [OF ok sh] packed_storeD(8,9) [OF sh] by simp_all
  ultimately show ?thesis
    using ll lp le la by (simp add: spec_store_def store_shape_def)
qed

lemma example_store_packed: "packed_store 1 1 2 3 example_store"
  by (simp add: packed_store_def store_shape_def example_store_def is_shape4_def is_shape3_def
      is_shape2_def)

lemma example_store_tiled: "tile_img_h5 example_store 2 1 3 1 = (None, Complete example_tiled)"
  by code_simp

section \<open>Casts and count checks\<close>

lemma astype_int16_range: "- 32768 \<le> astype_int16 v \<and> astype_int16 v < 32768"
proof -
  have "0 \<le> (v + 32768) mod 65536" "(v + 32768) mod 65536 < 65536" by simp_all
  then show ?thesis by (simp add: astype_int16_def)
qed

lemma astype_int16_id_iff: "astype_int16 v = v \<longleftrightarrow> - 32768 \<le> v \<and> v < 32768"
proof
  assume "astype_int16 v = v"
  with astype_int16_range [of v] show "- 32768 \<le> v \<and> v < 32768" by simp
next
  assume "- 32768 \<le> v \<and> v < 32768"
  then have "(v + 32768) mod 65536 = v + 32768" by (simp add: mod_pos_pos_trivial)
  then show "astype_int16 v = v" by (simp add: astype_int16_def)
qed

lemma astype_int16_high:
  assumes "32768 \<le> v" and "v < 65536"
  shows "astype_int16 v = v - 65536"
proof -
  have "v + 32768 = v - 32768 + 65536" by simp
  then have "(v + 32768) mod 65536 = (v - 32768 + 65536) mod 65536" by (simp only:)
  also have "\<dots> = (v - 32768) mod 65536" by (simp only: mod_add_self2)
  also have "\<dots> = v - 32768" using assms by (simp add: mod_pos_pos_trivial)
  finally show ?thesis by (simp add: astype_int16_def)
qed

lemma float_to_int16_id_iff:
  "real_of_int (float_to_int16 m) = m \<longleftrightarrow> m \<in> \<int> \<and> - 32768 \<le> m \<and> m < 32768"
proof
  assume eq: "real_of_int (float_to_int16 m) = m"
  have "real_of_int (float_to_int16 m) \<in> \<int>" by (rule Ints_of_int)
  then have "m \<in> \<int>" by (simp only: eq)
  moreover have "- 32768 \<le> float_to_int16 m \<and> float_to_int16 m < 32768"
    unfolding float_to_int16_def by (rule astype_int16_range)
  then have "- 32768 \<le> real_of_int (float_to_int16 m) \<and> real_of_int (float_to_int16 m) < 32768"
    by simp
  ultimately show "m \<in> \<int> \<and> - 32768 \<le> m \<and> m < 32768" using eq by simp
next
  assume a: "m \<in> \<int> \<and> - 32768 \<le> m \<and> m < 32768"
  then obtain z where z: "m = of_int z" by (auto elim: Ints_cases)
  with a have "- 32768 \<le> z \<and> z < 32768" by simp
  then have "astype_int16 z = z" by (simp add: astype_int16_id_iff)
  then show "real_of_int (float_to_int16 m) = m" by (simp add: float_to_int16_def z)
qed

lemma float_to_int16_floor:
  assumes "0 \<le> m" and "m < 32768"
  shows "float_to_int16 m = \<lfloor>m\<rfloor>"
proof -
  have "0 \<le> \<lfloor>m\<rfloor>" using assms(1) by simp
  moreover have "\<lfloor>m\<rfloor> < 32768" using assms(2) by (simp add: floor_less_iff)
  ultimately have "astype_int16 \<lfloor>m\<rfloor> = \<lfloor>m\<rfloor>" by (simp add: astype_int16_id_iff)
  with assms(1) show ?thesis by (simp add: float_to_int16_def)
qed

lemma tile_one_affine_length:
  assumes "ov \<noteq> 0"
  shows "\<exists>g. tile_one_affine a T t ov = Inr g \<and>
           length g = range_len (T - t + 1) ov * range_len (T - t + 1) ov"
proof -
  let ?offs = "map (\<lambda>k. int k * ov) [0 ..< range_len (T - t + 1) ov]"
  have "length (concat (map (\<lambda>row. map (\<lambda>col. affine_from_rowcol a row col) ?offs) ?offs)) =
      length ?offs * range_len (T - t + 1) ov"
    by (rule length_concat_map_uniform) simp
  with assms show ?thesis
    by (simp add: tile_one_affine_def py_range_def del: affine_from_rowcol.simps)
qed

lemma tile_affines_count:
  assumes "ov \<noteq> 0"
  shows "(int (length affs) * (int (range_len (T - t + 1) ov))\<^sup>2 \<noteq> rows \<longrightarrow>
            tile_affines affs T t ov rows = Inl AssertionError) \<and>
         (int (length affs) * (int (range_len (T - t + 1) ov))\<^sup>2 = rows \<longrightarrow>
            (\<exists>ts. tile_affines affs T t ov rows = Inr ts))"
proof -
  define g where "g a = (SOME g. tile_one_affine a T t ov = Inr g \<and>
           length g = range_len (T - t + 1) ov * range_len (T - t + 1) ov)" for a
  have g: "tile_one_affine a T t ov = Inr (g a) \<and>
      length (g a) = range_len (T - t + 1) ov * range_len (T - t + 1) ov" for a
    unfolding g_def by (rule someI_ex) (rule tile_one_affine_length [OF assms])
  have v: "tile_affines affs T t ov rows =
     (if rows \<noteq> int (length (concat (map g affs))) then Inl AssertionError
      else Inr (concat (map g affs)))"
    by (rule tile_affines_value) (simp add: g)
  have "length (concat (map g affs)) =
      length affs * (range_len (T - t + 1) ov * range_len (T - t + 1) ov)"
    by (rule length_concat_map_uniform) (simp add: g)
  then have "int (length (concat (map g affs))) =
      int (length affs) * (int (range_len (T - t + 1) ov))\<^sup>2"
    by (simp add: power2_eq_square)
  with v show ?thesis by auto
qed

lemma tile_paths_count:
  assumes "pth \<noteq> []"
  shows "(int (length pth) * int (nat nt) \<noteq> rows \<longrightarrow> tile_paths pth nt rows = Inl AssertionError) \<and>
         (int (length pth) * int (nat nt) = rows \<longrightarrow> (\<exists>ps. tile_paths pth nt rows = Inr ps))"
proof -
  have "length (concat (map (\<lambda>p. map (\<lambda>i. p @ ''_'' @ zero_pad (length (str_nat (nat nt))) (str_nat i))
      [0 ..< nat nt]) pth)) = length pth * nat nt"
    by (rule length_concat_map_uniform) simp
  then show ?thesis
    using assms by (auto simp: tile_paths_def Let_def simp del: str_nat.simps)
qed

lemma tile_epsgs_count:
  "(int (length eps) * int (nat nt) \<noteq> rows \<longrightarrow> tile_epsgs eps nt rows = Inl AssertionError) \<and>
   (int (length eps) * int (nat nt) = rows \<longrightarrow> (\<exists>es. tile_epsgs eps nt rows = Inr es))"
proof -
  have "length (concat (map (replicate (nat nt)) eps)) = length eps * nat nt"
    by (rule length_concat_map_uniform) simp
  then show ?thesis by (auto simp: tile_epsgs_def Let_def)
qed

lemma n_tiles_nonneg: "0 \<le> n_tiles_of T t ov"
  by (simp add: n_tiles_of_def)

lemma tile_count_mismatch:
  assumes "list_all is_Lbl2 (lbl src)" and "ov \<noteq> 0" and "path src \<noteq> []"
    and "int (length (path src)) * n_tiles_of T t ov \<noteq> int (length (img src)) * n_tiles_of T t ov \<or>
         int (length (epsg src)) * n_tiles_of T t ov \<noteq> int (length (img src)) * n_tiles_of T t ov \<or>
         int (length (affine src)) * (int (range_len (T - t + 1) ov))\<^sup>2 \<noteq>
           int (length (img src)) * n_tiles_of T t ov"
  shows "tile_img_h5 src t ov T cs = (Some AssertionError, Absent)"
proof -
  let ?nt = "n_tiles_of T t ov"
  let ?rows = "int (length (img src)) * ?nt"
  have nn: "int (nat ?nt) = ?nt" using n_tiles_nonneg [of T t ov] by simp
  note p = tile_paths_count [OF assms(3), of ?nt ?rows, unfolded nn]
  note e = tile_epsgs_count [of "epsg src" ?nt ?rows, unfolded nn]
  note a = tile_affines_count [OF assms(2), of "affine src" T t ?rows]
  have "tile_prepare src t ov T = Inl AssertionError"
  proof (cases "int (length (path src)) * ?nt = ?rows")
    case False
    with p have "tile_paths (path src) ?nt ?rows = Inl AssertionError" by blast
    with assms(1,2) show ?thesis by (simp add: tile_prepare_def Let_def)
  next
    case pt: True
    with p obtain ps where ps: "tile_paths (path src) ?nt ?rows = Inr ps" by blast
    show ?thesis
    proof (cases "int (length (epsg src)) * ?nt = ?rows")
      case False
      with e have "tile_epsgs (epsg src) ?nt ?rows = Inl AssertionError" by blast
      with assms(1,2) ps show ?thesis by (simp add: tile_prepare_def Let_def)
    next
      case et: True
      with e obtain es where es: "tile_epsgs (epsg src) ?nt ?rows = Inr es" by blast
      from pt et assms(4) have "int (length (affine src)) * (int (range_len (T - t + 1) ov))\<^sup>2 \<noteq> ?rows"
        by blast
      with a have "tile_affines (affine src) T t ov ?rows = Inl AssertionError" by blast
      with assms(1,2) ps es show ?thesis by (simp add: tile_prepare_def Let_def)
    qed
  qed
  then show ?thesis by (simp add: tile_img_h5_def)
qed

lemma packed_store_all_Lbl2:
  assumes "packed_store N C H W src"
  shows "list_all is_Lbl2 (lbl src)"
proof -
  have "is_Lbl2 l" if "l \<in> set (lbl src)" for l
    using packed_storeD(4) [OF assms that] by auto
  then show ?thesis by (simp add: list_all_iff)
qed

lemma n_side_shift:
  assumes "0 < ov"
  shows "n_side T t ov = (T - t + ov) div ov"
  using assms by (simp add: n_side_def)

lemma n_side_far_below:
  assumes "0 < ov" and "T - t < - ov"
  shows "n_side T t ov < 0"
proof -
  have "T - t + ov < 0" using assms(2) by simp
  then have "(T - t + ov) div ov < 0" using assms(1) by (rule div_neg_pos_less0)
  then show ?thesis by (simp only: n_side_shift [OF assms(1)])
qed

lemma n_side_just_below:
  assumes "0 < ov" and "- ov \<le> T - t" and "T < t"
  shows "n_side T t ov = 0"
proof -
  have "0 \<le> T - t + ov" "T - t + ov < ov" using assms by simp_all
  then have "(T - t + ov) div ov = 0" by (rule div_pos_pos_trivial)
  then show ?thesis by (simp only: n_side_shift [OF assms(1)])
qed

lemma range_len_n_side:
  assumes "0 < ov"
  shows "range_len (T - t + 1) ov = nat (n_side T t ov)"
proof -
  have "T - t + 1 + ov - 1 = T - t + ov" by simp
  then have "(T - t + 1 + ov - 1) div ov = (T - t + ov) div ov" by (simp only:)
  then show ?thesis using assms by (simp add: range_len_def n_side_shift)
qed

lemma cast_stat_nth:
  assumes "j < length ms"
  shows "(real_of_int (map float_to_int16 ms ! j) = ms ! j \<longleftrightarrow>
            ms ! j \<in> \<int> \<and> - 32768 \<le> ms ! j \<and> ms ! j < 32768) \<and>
         (0 \<le> ms ! j \<and> ms ! j < 32768 \<longrightarrow> map float_to_int16 ms ! j = \<lfloor>ms ! j\<rfloor>)"
  using assms by (simp add: float_to_int16_id_iff float_to_int16_floor)

text \<open>The row counts of a successful run when the source has any number of label rows.\<close>

lemma tile_rows_params:
  assumes ok: "tile_img_h5 src t ov T cs = (None, Complete dst)"
    and sh: "is_shape4 N C H W (img src)"
  shows "0 < ov \<and> 0 < t \<and> t \<le> T \<and> 0 < N \<and> 0 < C \<and> int H \<le> T \<and> (H = 0 \<or> int W \<le> T)"
proof -
  let ?nt = "n_tiles_of T t ov"
  from ok obtain plan where prep: "tile_prepare src t ov T = Inr plan"
    and wr: "tile_write src t ov T cs plan = Inr dst"
    using tile_img_h5_CompleteD by blast
  from tile_prepareD [OF prep] obtain pt et aft where plan: "plan = (?nt, pt, et, aft)"
    and aff: "tile_affines (affine src) T t ov (int (length (img src)) * ?nt) = Inr aft"
    by blast
  from tile_writeD [OF wr [unfolded plan]] obtain ib where
    cs: "0 < cs" "cs \<le> int (length (img src)) * ?nt"
    and ib: "sequence_r (map (\<lambda>im. tile_array [map (map (map astype_int16)) im] t ov T) (img src)) = Inr ib"
    by blast
  have N: "length (img src) = N" using sh by (simp add: is_shape4_def)
  have rows: "0 < int N * ?nt" using cs N by simp
  then have Npos: "0 < N" by (cases N) auto
  then have im0: "img src ! 0 \<in> set (img src)" using N by simp
  from sequence_r_map_Inr [OF ib] Npos N
  have "tile_array [map (map (map astype_int16)) (img src ! 0)] t ov T = Inr (ib ! 0)" by simp
  moreover have "is_shape3 C H W (map (map (map astype_int16)) (img src ! 0))"
    using sh im0 by (simp add: is_shape4_def list_all_iff map3_shape)
  ultimately have par: "0 < C \<and> int H \<le> T \<and> (H = 0 \<or> int W \<le> T) \<and> 0 < t \<and> t \<le> T \<and> ov \<noteq> 0"
    by (rule tile_array_Inr_params)
  have "\<not> ov < 0"
  proof
    assume neg: "ov < 0"
    have e: "tile_one_affine a T t ov = Inr ((\<lambda>a. []) a)" for a
      using neg par by (simp add: tile_one_affine_empty)
    have ta: "tile_affines (affine src) T t ov (int (length (img src)) * ?nt) =
        (if int (length (img src)) * ?nt \<noteq> 0 then Inl AssertionError else Inr [])"
      using tile_affines_value [of T t ov "\<lambda>a. []", OF e] by (simp add: concat_map_Nil)
    have nz: "int (length (img src)) * ?nt \<noteq> 0"
    proof
      assume "int (length (img src)) * ?nt = 0"
      with rows N show False by (simp only: less_irrefl)
    qed
    then have "(if int (length (img src)) * ?nt \<noteq> 0 then Inl AssertionError else Inr []) =
        (Inl AssertionError :: error + geotransform list)"
      by (rule if_P)
    with ta have "tile_affines (affine src) T t ov (int (length (img src)) * ?nt) = Inl AssertionError"
      by (simp only:)
    with aff show False by simp
  qed
  with par Npos show ?thesis by simp
qed

lemma tile_rows_lengths:
  assumes ok: "tile_img_h5 src t ov T cs = (None, Complete dst)"
    and sh: "is_shape4 N C H W (img src)"
    and lb: "list_all (lbl_has_shape [H, W]) (lbl src)"
  shows "length (img dst) = N * nat (n_tiles_of T t ov)"
    and "length (lbl dst) = length (lbl src) * nat (n_tiles_of T t ov)"
    and "length (path dst) = N * nat (n_tiles_of T t ov)"
    and "length (epsg dst) = N * nat (n_tiles_of T t ov)"
    and "length (affine dst) = N * nat (n_tiles_of T t ov)"
proof -
  let ?nt = "n_tiles_of T t ov"
  let ?n = "nat (n_side T t ov)"
  from tile_rows_params [OF ok sh]
  have par: "0 < ov" "0 < t" "t \<le> T" "0 < N" "0 < C" "int H \<le> T" "H = 0 \<or> int W \<le> T"
    by simp_all
  have nt: "nat ?nt = ?n * ?n" using par(1,3) by (rule n_tiles_nat)
  have N: "length (img src) = N" using sh by (simp add: is_shape4_def)
  from ok obtain plan where prep: "tile_prepare src t ov T = Inr plan"
    and wr: "tile_write src t ov T cs plan = Inr dst"
    using tile_img_h5_CompleteD by blast
  from tile_prepareD [OF prep] obtain pt et aft where plan: "plan = (?nt, pt, et, aft)"
    and pth: "tile_paths (path src) ?nt (int (length (img src)) * ?nt) = Inr pt"
    and eps: "tile_epsgs (epsg src) ?nt (int (length (img src)) * ?nt) = Inr et"
    and aff: "tile_affines (affine src) T t ov (int (length (img src)) * ?nt) = Inr aft"
    by blast
  from tile_writeD [OF wr [unfolded plan]] obtain ib lb where
    ib: "sequence_r (map (\<lambda>im. tile_array [map (map (map astype_int16)) im] t ov T) (img src)) = Inr ib"
    and lb: "sequence_r (map (\<lambda>l. tile_array [[map (map astype_int16) (lbl_band l)]] t ov T) (lbl src)) = Inr lb"
    and dst: "dst = \<lparr>img = concat ib, lbl = map Lbl3 (concat lb), path = pt, epsg = et, affine = aft,
               img_means = map float_to_int16 (img_means src),
               img_stds = map float_to_int16 (img_stds src)\<rparr>"
    by blast
  have "tile_array [map (map (map astype_int16)) im] t ov T =
      Inr (tiles_of t ov T (map (map (map astype_int16)) im))" if "im \<in> set (img src)" for im
  proof -
    have "is_shape3 C H W (map (map (map astype_int16)) im)"
      using sh that by (simp add: is_shape4_def list_all_iff map3_shape)
    then show ?thesis
      unfolding tiles_of_def using par(5,6,7,2,3,1) by (rule tile_array_item)
  qed
  then have "sequence_r (map (\<lambda>im. tile_array [map (map (map astype_int16)) im] t ov T) (img src)) =
      Inr (map (\<lambda>im. tiles_of t ov T (map (map (map astype_int16)) im)) (img src))"
    by (rule sequence_r_all_Inr)
  with ib have ib': "ib = map (\<lambda>im. tiles_of t ov T (map (map (map astype_int16)) im)) (img src)"
    by simp
  have "tile_array [[map (map astype_int16) (lbl_band l)]] t ov T =
      Inr (tiles_of t ov T [map (map astype_int16) (lbl_band l)])" if "l \<in> set (lbl src)" for l
  proof -
    from assms(3) that have "lbl_has_shape [H, W] l" by (simp add: list_all_iff)
    then obtain b where b: "l = Lbl2 b" "is_shape2 H W b" by (cases l) simp_all
    then have "is_shape3 1 H W [map (map astype_int16) (lbl_band l)]"
      by (auto simp: is_shape3_def is_shape2_def list_all_iff)
    then show ?thesis
      unfolding tiles_of_def using _ par(6,7,2,3,1) by (rule tile_array_item) simp
  qed
  then have "sequence_r (map (\<lambda>l. tile_array [[map (map astype_int16) (lbl_band l)]] t ov T) (lbl src)) =
      Inr (map (\<lambda>l. tiles_of t ov T [map (map astype_int16) (lbl_band l)]) (lbl src))"
    by (rule sequence_r_all_Inr)
  with lb have lb': "lb = map (\<lambda>l. tiles_of t ov T [map (map astype_int16) (lbl_band l)]) (lbl src)"
    by simp
  have nn: "0 \<le> ?nt" by (rule n_tiles_nonneg)
  have rows: "nat (int (length (img src)) * ?nt) = N * nat ?nt"
    using nn N by (simp add: nat_mult_distrib)
  show "length (img dst) = N * nat ?nt"
    unfolding nt using length_concat_map_uniform [of "\<lambda>im. tiles_of t ov T (map (map (map astype_int16)) im)"
        "?n * ?n" "img src"] N
    by (simp add: dst ib' length_tiles_of)
  show "length (lbl dst) = length (lbl src) * nat ?nt"
    unfolding nt using length_concat_map_uniform [of "\<lambda>l. tiles_of t ov T [map (map astype_int16) (lbl_band l)]"
        "?n * ?n" "lbl src"]
    by (simp add: dst lb' length_tiles_of)
  from pth have "int (length (img src)) * ?nt = int (length pt)"
    by (simp add: tile_paths_def Let_def split: if_splits del: str_nat.simps)
  with rows show "length (path dst) = N * nat ?nt" by (simp add: dst)
  from eps have "int (length (img src)) * ?nt = int (length et)"
    by (simp add: tile_epsgs_def Let_def split: if_splits)
  with rows show "length (epsg dst) = N * nat ?nt" by (simp add: dst)
  from aff have "int (length (img src)) * ?nt = int (length aft)"
    by (simp add: tile_affines_def Let_def split: if_splits sum.splits)
  with rows show "length (affine dst) = N * nat ?nt" by (simp add: dst)
qed

lemma example_two_labels_tiled:
  "tile_img_h5 example_store_two_labels 2 1 3 1 = (None, Complete example_tiled_two_labels)"
  by code_simp

lemma example_two_labels_rows:
  "is_shape4 1 1 2 3 (img example_store_two_labels)"
  "list_all (lbl_has_shape [2, 3]) (lbl example_store_two_labels)"
  "length (img example_store_two_labels) = 1" "length (lbl example_store_two_labels) = 2"
  "length (path example_store_two_labels) = 1" "length (epsg example_store_two_labels) = 1"
  "length (affine example_store_two_labels) = 1"
  by (simp_all add: example_store_two_labels_def example_store_def is_shape4_def is_shape3_def
      is_shape2_def)

section \<open>The ImagePacker on a file system\<close>

lemma derive_metadata_probe:
  "derive_metadata fs p = (case map_of fs p of None \<Rightarrow> Inl RasterioIOError | Some r \<Rightarrow> Inr (probe r))"
  by (simp add: derive_metadata_def rio_open_def probe_def split: option.splits)

lemma sequence_r_probe:
  assumes "sequence_r (map (derive_metadata fs) ps) = Inr md"
  shows "\<exists>rs. map (map_of fs) ps = map Some rs \<and> md = map probe rs"
  using assms
proof (induction ps arbitrary: md)
  case Nil
  then show ?case by simp
next
  case (Cons p ps)
  from Cons.prems obtain x where x: "derive_metadata fs p = Inr x"
    by (cases "derive_metadata fs p") simp_all
  then obtain r where r: "map_of fs p = Some r" "x = probe r"
    by (cases "map_of fs p") (simp_all add: derive_metadata_probe)
  from Cons.prems x obtain md' where md': "sequence_r (map (derive_metadata fs) ps) = Inr md'"
      "md = x # md'"
    by (cases "sequence_r (map (derive_metadata fs) ps)") simp_all
  from Cons.IH [OF md'(1)] obtain rs where "map (map_of fs) ps = map Some rs" "md' = map probe rs"
    by blast
  with r md'(2) have "map (map_of fs) (p # ps) = map Some (r # rs) \<and> md = map probe (r # rs)"
    by simp
  then show ?case by blast
qed

lemma convert_CompleteD:
  assumes "convert_img_to_h5 fs file_glob label_glob image_bands = (None, Complete st)"
  shows "\<exists>plan. convert_prepare fs file_glob label_glob image_bands = Inr plan \<and>
           convert_write fs plan = Inr st"
  using assms by (auto simp: convert_img_to_h5_def split: sum.splits)

lemma convert_prepare_value:
  assumes "length (list_images fs file_glob label_glob) =
      length (list_labels fs label_glob (list_images fs file_glob label_glob))"
    and "map (map_of fs) (list_images fs file_glob label_glob) = map Some rs"
    and "rs \<noteq> []"
  shows "convert_prepare fs file_glob label_glob image_bands =
     (case size_warning (map width rs) (map height rs) of
        Inl e \<Rightarrow> Inl e
      | Inr warning \<Rightarrow>
          (case select_bands image_bands (map (\<lambda>r. length (pixels r)) rs) of
             Inl e \<Rightarrow> Inl e
           | Inr selected \<Rightarrow>
               Inr \<lparr>p_images = list_images fs file_glob label_glob,
                    p_labels = list_labels fs label_glob (list_images fs file_glob label_glob),
                    p_max_width = Max (set (map width rs)), p_max_height = Max (set (map height rs)),
                    p_bands = selected, p_epsgs = map crs rs,
                    p_affines = map (\<lambda>r. to_gdal (transform r)) rs,
                    p_warning = warning\<rparr>))"
proof -
  let ?li = "list_images fs file_glob label_glob"
  have "derive_metadata fs p = Inr ((\<lambda>p. probe (the (map_of fs p))) p)" if "p \<in> set ?li" for p
  proof -
    from that obtain k where k: "k < length ?li" "?li ! k = p" by (auto simp: in_set_conv_nth)
    then have "map (map_of fs) ?li ! k = map_of fs p" by simp
    with assms(2) k have "map_of fs p = Some (rs ! k)"
      by (metis length_map nth_map)
    then show ?thesis by (simp add: derive_metadata_probe)
  qed
  then have "sequence_r (map (derive_metadata fs) ?li) = Inr (map (\<lambda>p. probe (the (map_of fs p))) ?li)"
    by (rule sequence_r_all_Inr)
  moreover have "map (\<lambda>p. probe (the (map_of fs p))) ?li = map probe rs"
  proof -
    have "map (\<lambda>p. probe (the (map_of fs p))) ?li = map (probe \<circ> the) (map (map_of fs) ?li)"
      by (simp add: comp_def)
    also have "\<dots> = map probe rs" by (simp add: assms(2) comp_def)
    finally show ?thesis .
  qed
  ultimately have md: "sequence_r (map (derive_metadata fs) ?li) = Inr (map probe rs)" by simp
  have w: "map fst (map probe rs) = map width rs" "map (fst \<circ> snd) (map probe rs) = map height rs"
    "map (fst \<circ> snd \<circ> snd) (map probe rs) = map crs rs"
    "map (fst \<circ> snd \<circ> snd \<circ> snd) (map probe rs) = map (\<lambda>r. to_gdal (transform r)) rs"
    "map (snd \<circ> snd \<circ> snd \<circ> snd) (map probe rs) = map (\<lambda>r. length (pixels r)) rs"
    by (simp_all add: probe_def comp_def)
  have ne: "map probe rs \<noteq> []" using assms(3) by simp
  show ?thesis
    unfolding convert_prepare_def Let_def md sum.case w
    using assms(1) ne by simp
qed

lemma convert_prepare_rasters:
  assumes "convert_prepare fs file_glob label_glob image_bands = Inr plan"
  shows "\<exists>rs. rs \<noteq> [] \<and>
      map (map_of fs) (list_images fs file_glob label_glob) = map Some rs \<and>
      length (list_images fs file_glob label_glob) =
        length (list_labels fs label_glob (list_images fs file_glob label_glob))"
proof -
  let ?li = "list_images fs file_glob label_glob"
  have len: "length ?li = length (list_labels fs label_glob ?li)"
  proof (rule ccontr)
    assume "length ?li \<noteq> length (list_labels fs label_glob ?li)"
    then have "convert_prepare fs file_glob label_glob image_bands = Inl AssertionError"
      unfolding convert_prepare_def Let_def by simp
    with assms show False by simp
  qed
  have c: "convert_prepare fs file_glob label_glob image_bands =
      (case sequence_r (map (derive_metadata fs) ?li) of
             Inl e \<Rightarrow> Inl e
           | Inr metadata \<Rightarrow> if metadata = [] then Inl ValueError else
                 (case size_warning (map fst metadata) (map (fst \<circ> snd) metadata) of
                      Inl e \<Rightarrow> Inl e
                    | Inr warning \<Rightarrow>
                        (case select_bands image_bands (map (snd \<circ> snd \<circ> snd \<circ> snd) metadata) of
                           Inl e \<Rightarrow> Inl e
                         | Inr selected \<Rightarrow>
                             Inr \<lparr>p_images = ?li, p_labels = list_labels fs label_glob ?li,
                                  p_max_width = Max (set (map fst metadata)),
                                  p_max_height = Max (set (map (fst \<circ> snd) metadata)),
                                  p_bands = selected, p_epsgs = map (fst \<circ> snd \<circ> snd) metadata,
                                  p_affines = map (fst \<circ> snd \<circ> snd \<circ> snd) metadata,
                                  p_warning = warning\<rparr>)))"
    unfolding convert_prepare_def Let_def using len by simp
  from assms c obtain md where md: "sequence_r (map (derive_metadata fs) ?li) = Inr md"
    by (cases "sequence_r (map (derive_metadata fs) ?li)") simp_all
  from sequence_r_probe [OF md] obtain rs where rs: "map (map_of fs) ?li = map Some rs"
    "md = map probe rs" by blast
  have "md \<noteq> []"
  proof
    assume "md = []"
    with c md have "convert_prepare fs file_glob label_glob image_bands = Inl ValueError" by simp
    with assms show False by simp
  qed
  with rs len show ?thesis by auto
qed

lemma convert_writeD:
  assumes "convert_write fs plan = Inr st"
  shows "\<exists>ia la.
      sequence_r (map (\<lambda>p. load_img fs p (p_max_width plan) (p_max_height plan) (p_bands plan))
                     (p_images plan)) = Inr ia \<and>
      sequence_r (map (\<lambda>p. load_lbl fs p (p_max_width plan) (p_max_height plan))
                     (p_labels plan)) = Inr la \<and>
      st = \<lparr>img = ia, lbl = map Lbl2 la, path = map (\<lambda>p. stem (snd p)) (p_images plan),
            epsg = p_epsgs plan, affine = p_affines plan,
            img_means = map (\<lambda>c. mean_of (band_values ia c)) [0 ..< first_len ia],
            img_stds = map (\<lambda>c. std_of (band_values ia c)) [0 ..< first_len ia]\<rparr>"
  using assms by (auto simp: convert_write_def split: sum.splits)

lemma convert_planD:
  assumes "convert_prepare fs file_glob label_glob image_bands = Inr plan"
  shows "\<exists>rs. rs \<noteq> [] \<and>
      map (map_of fs) (list_images fs file_glob label_glob) = map Some rs \<and>
      p_images plan = list_images fs file_glob label_glob \<and>
      p_labels plan = list_labels fs label_glob (list_images fs file_glob label_glob) \<and>
      length (p_labels plan) = length (p_images plan) \<and>
      length rs = length (p_images plan) \<and>
      p_max_width plan = Max (set (map width rs)) \<and>
      p_max_height plan = Max (set (map height rs)) \<and>
      p_epsgs plan = map crs rs \<and>
      p_affines plan = map (\<lambda>r. to_gdal (transform r)) rs \<and>
      select_bands image_bands (map (\<lambda>r. length (pixels r)) rs) = Inr (p_bands plan)"
proof -
  let ?li = "list_images fs file_glob label_glob"
  from convert_prepare_rasters [OF assms] obtain rs where rs: "rs \<noteq> []"
    "map (map_of fs) ?li = map Some rs" "length ?li = length (list_labels fs label_glob ?li)"
    by blast
  note v = convert_prepare_value [OF rs(3) rs(2) rs(1), of image_bands]
  from assms v obtain warning where w: "size_warning (map width rs) (map height rs) = Inr warning"
    by (cases "size_warning (map width rs) (map height rs)") simp_all
  from assms v w obtain selected where
    s: "select_bands image_bands (map (\<lambda>r. length (pixels r)) rs) = Inr selected"
    by (cases "select_bands image_bands (map (\<lambda>r. length (pixels r)) rs)") simp_all
  from assms v w s have plan: "plan =
      \<lparr>p_images = ?li, p_labels = list_labels fs label_glob ?li,
       p_max_width = Max (set (map width rs)), p_max_height = Max (set (map height rs)),
       p_bands = selected, p_epsgs = map crs rs,
       p_affines = map (\<lambda>r. to_gdal (transform r)) rs, p_warning = warning\<rparr>"
    by simp
  have "length rs = length ?li" using rs(2) by (metis length_map)
  with rs s plan show ?thesis by auto
qed

lemma load_img_value:
  assumes "map_of fs p = Some r" and "load_img fs p W H bands = Inr x"
  shows "list_all (\<lambda>b. 1 \<le> b \<and> b \<le> int (length (pixels r))) bands \<and>
         height r \<le> H \<and> width r \<le> W \<and>
         x = map (\<lambda>b. pad_band (H - height r) (W - width r) (width r) (pixels r ! nat (b - 1))) bands"
proof -
  have rb: "list_all (\<lambda>b. 1 \<le> b \<and> b \<le> int (length (pixels r))) bands"
  proof (rule ccontr)
    assume "\<not> list_all (\<lambda>b. 1 \<le> b \<and> b \<le> int (length (pixels r))) bands"
    then have "read_bands r bands = Inl IndexError" by (simp add: read_bands_def)
    with assms show False by (simp add: load_img_def rio_open_def Let_def)
  qed
  then have rd: "read_bands r bands = Inr (map (\<lambda>b. pixels r ! nat (b - 1)) bands)"
    by (simp add: read_bands_def)
  from assms rd have hw: "\<not> (int H - int (height r) < 0 \<or> int W - int (width r) < 0)"
    by (auto simp: load_img_def rio_open_def Let_def split: if_splits)
  then have n: "nat (int H - int (height r)) = H - height r"
      "nat (int W - int (width r)) = W - width r" by simp_all
  from assms rd hw have "x = map (pad_band (nat (int H - int (height r)))
      (nat (int W - int (width r))) (width r)) (map (\<lambda>b. pixels r ! nat (b - 1)) bands)"
    by (simp add: load_img_def rio_open_def Let_def split: if_splits)
  with rb hw show ?thesis by (simp add: n comp_def)
qed

lemma load_lbl_value:
  assumes "load_lbl fs p W H = Inr x"
  shows "\<exists>l b bs. map_of fs (fst p, ''label.tif'') = Some l \<and> pixels l = b # bs \<and>
           height l \<le> H \<and> width l \<le> W \<and>
           x = pad_band (H - height l) (W - width l) (width l) b"
proof -
  from assms obtain l where l: "map_of fs (fst p, ''label.tif'') = Some l"
    by (cases "map_of fs (fst p, ''label.tif'')") (simp_all add: load_lbl_def rio_open_def)
  from assms l obtain b bs where b: "pixels l = b # bs"
    by (cases "pixels l") (simp_all add: load_lbl_def rio_open_def read_band1_def Let_def)
  from assms l b have hw: "\<not> (int H - int (height l) < 0 \<or> int W - int (width l) < 0)"
    by (auto simp: load_lbl_def rio_open_def read_band1_def Let_def split: if_splits)
  then have n: "nat (int H - int (height l)) = H - height l"
      "nat (int W - int (width l)) = W - width l" by simp_all
  from assms l b hw have "x = pad_band (nat (int H - int (height l)))
      (nat (int W - int (width l))) (width l) b"
    by (simp add: load_lbl_def rio_open_def read_band1_def Let_def split: if_splits)
  with l b hw show ?thesis by (auto simp: n)
qed

lemma padded_band:
  assumes "is_shape2 h w b" and "h \<le> H" and "w \<le> W"
  shows "is_shape2 H W (pad_band (H - h) (W - w) w b)"
    and "i < H \<Longrightarrow> j < W \<Longrightarrow>
         pad_band (H - h) (W - w) w b ! i ! j = (if i < h \<and> j < w then b ! i ! j else 0)"
proof -
  have "is_shape2 (h + (H - h)) (w + (W - w)) (pad_band (H - h) (W - w) w b)"
    using assms(1) by (rule pad_band_shape) simp
  then show "is_shape2 H W (pad_band (H - h) (W - w) w b)" using assms(2,3) by simp
  show "pad_band (H - h) (W - w) w b ! i ! j = (if i < h \<and> j < w then b ! i ! j else 0)"
    if "i < H" "j < W"
    using assms(1) by (rule pad_band_nth) (use assms(2,3) that in simp_all)
qed

lemma convert_success_rows:
  assumes ok: "convert_img_to_h5 fs file_glob label_glob image_bands = (None, Complete st)"
    and prep: "convert_prepare fs file_glob label_glob image_bands = Inr plan"
  shows "length (img st) = length (p_images plan)"
    and "length (lbl st) = length (p_images plan)"
    and "path st = map (\<lambda>p. stem (snd p)) (p_images plan)"
    and "epsg st = p_epsgs plan" and "affine st = p_affines plan"
    and "img_means st = map (\<lambda>c. mean_of (band_values (img st) c)) [0 ..< first_len (img st)]"
    and "img_stds st = map (\<lambda>c. std_of (band_values (img st) c)) [0 ..< first_len (img st)]"
    and "\<And>k. k < length (p_images plan) \<Longrightarrow>
           load_img fs (p_images plan ! k) (p_max_width plan) (p_max_height plan) (p_bands plan) =
             Inr (img st ! k)"
    and "\<And>k. k < length (p_images plan) \<Longrightarrow>
           \<exists>b. load_lbl fs (p_labels plan ! k) (p_max_width plan) (p_max_height plan) = Inr b \<and>
               lbl st ! k = Lbl2 b"
proof -
  from ok prep have "convert_write fs plan = Inr st"
    by (auto simp: convert_img_to_h5_def split: sum.splits)
  from convert_writeD [OF this] obtain ia la where
    ia: "sequence_r (map (\<lambda>p. load_img fs p (p_max_width plan) (p_max_height plan) (p_bands plan))
                     (p_images plan)) = Inr ia"
    and la: "sequence_r (map (\<lambda>p. load_lbl fs p (p_max_width plan) (p_max_height plan))
                     (p_labels plan)) = Inr la"
    and st: "st = \<lparr>img = ia, lbl = map Lbl2 la, path = map (\<lambda>p. stem (snd p)) (p_images plan),
            epsg = p_epsgs plan, affine = p_affines plan,
            img_means = map (\<lambda>c. mean_of (band_values ia c)) [0 ..< first_len ia],
            img_stds = map (\<lambda>c. std_of (band_values ia c)) [0 ..< first_len ia]\<rparr>"
    by blast
  from convert_planD [OF prep] have len: "length (p_labels plan) = length (p_images plan)" by blast
  note i = sequence_r_map_Inr [OF ia]
  note l = sequence_r_map_Inr [OF la]
  show "length (img st) = length (p_images plan)" using i by (simp add: st)
  show "length (lbl st) = length (p_images plan)" using l len by (simp add: st)
  show "path st = map (\<lambda>p. stem (snd p)) (p_images plan)" by (simp add: st)
  show "epsg st = p_epsgs plan" "affine st = p_affines plan" by (simp_all add: st)
  show "img_means st = map (\<lambda>c. mean_of (band_values (img st) c)) [0 ..< first_len (img st)]"
    "img_stds st = map (\<lambda>c. std_of (band_values (img st) c)) [0 ..< first_len (img st)]"
    by (simp_all add: st)
  show "load_img fs (p_images plan ! k) (p_max_width plan) (p_max_height plan) (p_bands plan) =
      Inr (img st ! k)" if "k < length (p_images plan)" for k
    using i that by (simp add: st)
  show "\<exists>b. load_lbl fs (p_labels plan ! k) (p_max_width plan) (p_max_height plan) = Inr b \<and>
      lbl st ! k = Lbl2 b" if "k < length (p_images plan)" for k
    using l that len by (simp add: st)
qed

lemma wf_raster_band:
  assumes "wf_raster r" and "1 \<le> b" and "b \<le> int (length (pixels r))"
  shows "is_shape2 (height r) (width r) (pixels r ! nat (b - 1))"
proof -
  have "nat (b - 1) < length (pixels r)" using assms(2,3) by simp
  with assms(1) show ?thesis by (simp add: wf_raster_def is_shape3_def list_all_length)
qed

text \<open>One packed image row and one packed label row, pixel by pixel.\<close>

lemma packed_img_row:
  assumes ok: "convert_img_to_h5 fs file_glob label_glob image_bands = (None, Complete st)"
    and prep: "convert_prepare fs file_glob label_glob image_bands = Inr plan"
    and k: "k < length (p_images plan)"
    and r: "map_of fs (p_images plan ! k) = Some r" and wf: "wf_raster r"
  shows "height r \<le> p_max_height plan" and "width r \<le> p_max_width plan"
    and "is_shape3 (length (p_bands plan)) (p_max_height plan) (p_max_width plan) (img st ! k)"
    and "\<And>c i j. c < length (p_bands plan) \<Longrightarrow> i < p_max_height plan \<Longrightarrow> j < p_max_width plan \<Longrightarrow>
           1 \<le> p_bands plan ! c \<and> p_bands plan ! c \<le> int (length (pixels r)) \<and>
           img st ! k ! c ! i ! j =
             (if i < height r \<and> j < width r then pixels r ! nat (p_bands plan ! c - 1) ! i ! j else 0)"
proof -
  let ?H = "p_max_height plan" and ?W = "p_max_width plan"
  note v = load_img_value [OF r convert_success_rows(8) [OF ok prep k]]
  from v show h: "height r \<le> ?H" and w: "width r \<le> ?W" by simp_all
  from v have x: "img st ! k = map (\<lambda>b. pad_band (?H - height r) (?W - width r) (width r)
      (pixels r ! nat (b - 1))) (p_bands plan)" by simp
  from v have rng: "1 \<le> b \<and> b \<le> int (length (pixels r))" if "b \<in> set (p_bands plan)" for b
    using that by (simp add: list_all_iff)
  have "is_shape2 ?H ?W (pad_band (?H - height r) (?W - width r) (width r) (pixels r ! nat (b - 1)))"
    if "b \<in> set (p_bands plan)" for b
    using wf_raster_band [OF wf] rng [OF that] h w by (intro padded_band(1)) simp_all
  then show "is_shape3 (length (p_bands plan)) ?H ?W (img st ! k)"
    by (simp add: x is_shape3_def list_all_iff)
  show "1 \<le> p_bands plan ! c \<and> p_bands plan ! c \<le> int (length (pixels r)) \<and>
      img st ! k ! c ! i ! j =
        (if i < height r \<and> j < width r then pixels r ! nat (p_bands plan ! c - 1) ! i ! j else 0)"
    if "c < length (p_bands plan)" "i < ?H" "j < ?W" for c i j
  proof -
    have b: "1 \<le> p_bands plan ! c \<and> p_bands plan ! c \<le> int (length (pixels r))"
      using rng [of "p_bands plan ! c"] that(1) by simp
    then have "is_shape2 (height r) (width r) (pixels r ! nat (p_bands plan ! c - 1))"
      using wf_raster_band [OF wf] by simp
    from padded_band(2) [OF this h w that(2,3)] b that(1) show ?thesis by (simp add: x)
  qed
qed

lemma packed_lbl_row:
  assumes ok: "convert_img_to_h5 fs file_glob label_glob image_bands = (None, Complete st)"
    and prep: "convert_prepare fs file_glob label_glob image_bands = Inr plan"
    and k: "k < length (p_images plan)"
    and wf: "\<And>l. map_of fs (fst (p_labels plan ! k), ''label.tif'') = Some l \<Longrightarrow> wf_raster l"
  shows "\<exists>l b. map_of fs (fst (p_labels plan ! k), ''label.tif'') = Some l \<and>
           height l \<le> p_max_height plan \<and> width l \<le> p_max_width plan \<and>
           lbl st ! k = Lbl2 b \<and> is_shape2 (p_max_height plan) (p_max_width plan) b \<and>
           (\<forall>i < p_max_height plan. \<forall>j < p_max_width plan.
              b ! i ! j = (if i < height l \<and> j < width l then pixels l ! 0 ! i ! j else 0))"
proof -
  let ?H = "p_max_height plan" and ?W = "p_max_width plan"
  from convert_success_rows(9) [OF ok prep k] obtain b where
    b: "load_lbl fs (p_labels plan ! k) ?W ?H = Inr b" "lbl st ! k = Lbl2 b" by blast
  from load_lbl_value [OF b(1)] obtain l b0 bs where
    l: "map_of fs (fst (p_labels plan ! k), ''label.tif'') = Some l" "pixels l = b0 # bs"
      "height l \<le> ?H" "width l \<le> ?W"
      "b = pad_band (?H - height l) (?W - width l) (width l) b0"
    by blast
  from wf [OF l(1)] l(2) have sh: "is_shape2 (height l) (width l) b0"
    by (simp add: wf_raster_def is_shape3_def)
  have b0: "pixels l ! 0 = b0" using l(2) by simp
  from padded_band [OF sh l(3,4)] l b show ?thesis
    by (auto simp: b0)
qed

subsection \<open>The examples, converted\<close>

lemma ex_prep: "convert_prepare example_fs is_tif is_label None =
   Inr \<lparr>p_images = [(''a'', ''img.tif'')], p_labels = [(''a'', ''label.tif'')],
        p_max_width = 2, p_max_height = 1, p_bands = [1, 2], p_epsgs = [32601],
        p_affines = [(500, 10, 0, 900, 0, - 10)], p_warning = False\<rparr>"
  by code_simp

lemma ex10_prep: "convert_prepare example_fs10 is_tif is_label None = Inr example_plan10"
  by code_simp

lemma ex10_img: "sequence_r (map (\<lambda>p. load_img example_fs10 p 2 1 [1]) (p_images example_plan10)) =
    Inr example_img10"
  by code_simp

lemma ex10_lbl: "sequence_r (map (\<lambda>p. load_lbl example_fs10 p 2 1) (p_labels example_plan10)) =
    Inr ([[1, 0]] # replicate 9 [[0, 1]])"
  by code_simp


lemma ex10_fields:
  "p_max_width example_plan10 = 2" "p_max_height example_plan10 = 1" "p_bands example_plan10 = [1]"
  "p_epsgs example_plan10 = replicate 10 32601"
  "p_affines example_plan10 = replicate 10 (500, 10, 0, 900, 0, - 10)"
  "length (p_images example_plan10) = 10"
  by (simp_all add: example_plan10_def)

lemma ex10_paths:
  "map (\<lambda>p. stem (snd p)) (p_images example_plan10) = map (\<lambda>k. ''img_'' @ str_nat k) [0 ..< 10]"
  by code_simp

lemma ex10_first_len: "first_len example_img10 = 1"
  by code_simp

lemma example10_converted:
  "convert_img_to_h5 example_fs10 is_tif is_label None = (None, Complete example_packed10)"
proof -
  have "convert_write example_fs10 example_plan10 = Inr example_packed10"
    unfolding convert_write_def ex10_fields ex10_img ex10_lbl sum.case ex10_paths ex10_first_len
    by (simp add: example_packed10_def)
  then show ?thesis by (simp add: convert_img_to_h5_def ex10_prep)
qed

lemma canvas_is_maximum:
  assumes "convert_prepare fs file_glob label_glob image_bands = Inr plan"
  shows "(\<forall>k < length (p_images plan). \<forall>r. map_of fs (p_images plan ! k) = Some r \<longrightarrow>
            height r \<le> p_max_height plan \<and> width r \<le> p_max_width plan) \<and>
         (\<exists>k < length (p_images plan). \<exists>r. map_of fs (p_images plan ! k) = Some r \<and>
            height r = p_max_height plan) \<and>
         (\<exists>k < length (p_images plan). \<exists>r. map_of fs (p_images plan ! k) = Some r \<and>
            width r = p_max_width plan)"
proof -
  from convert_planD [OF assms] obtain rs where rs: "rs \<noteq> []"
    "map (map_of fs) (p_images plan) = map Some rs" "length rs = length (p_images plan)"
    "p_max_width plan = Max (set (map width rs))" "p_max_height plan = Max (set (map height rs))"
    by auto
  have nth: "map_of fs (p_images plan ! k) = Some (rs ! k)" if "k < length (p_images plan)" for k
  proof -
    have "map (map_of fs) (p_images plan) ! k = map Some rs ! k" by (simp only: rs(2))
    with that rs(3) show ?thesis by simp
  qed
  have ge: "height r \<le> p_max_height plan \<and> width r \<le> p_max_width plan"
    if "k < length (p_images plan)" "map_of fs (p_images plan ! k) = Some r" for k r
  proof -
    from nth [OF that(1)] that(2) have "r = rs ! k" by simp
    with that(1) rs(3) have "r \<in> set rs" by simp
    then show ?thesis by (simp add: rs(4,5))
  qed
  have "Max (set (map height rs)) \<in> set (map height rs)" using rs(1) by (intro Max_in) simp_all
  then obtain kh where kh: "kh < length rs" "height (rs ! kh) = p_max_height plan"
    by (auto simp: in_set_conv_nth rs(5))
  have "Max (set (map width rs)) \<in> set (map width rs)" using rs(1) by (intro Max_in) simp_all
  then obtain kw where kw: "kw < length rs" "width (rs ! kw) = p_max_width plan"
    by (auto simp: in_set_conv_nth rs(4))
  from ge kh kw nth rs(3) show ?thesis by metis
qed

lemma wf_fs_lookup:
  assumes "list_all (\<lambda>(p, r). wf_raster r) fs" and "map_of fs p = Some r"
  shows "wf_raster r"
proof -
  from assms(2) have "(p, r) \<in> set fs" by (rule map_of_SomeD)
  with assms(1) show ?thesis by (auto simp: list_all_iff)
qed

lemma convert_plan_rasters:
  assumes "convert_prepare fs file_glob label_glob image_bands = Inr plan"
  obtains rs where "rs \<noteq> []" and "map (map_of fs) (p_images plan) = map Some rs"
    and "length rs = length (p_images plan)"
    and "p_max_width plan = Max (set (map width rs))"
    and "p_max_height plan = Max (set (map height rs))"
    and "p_epsgs plan = map crs rs"
    and "p_affines plan = map (\<lambda>r. to_gdal (transform r)) rs"
    and "select_bands image_bands (map (\<lambda>r. length (pixels r)) rs) = Inr (p_bands plan)"
proof -
  from convert_planD [OF assms] obtain rs where rs: "rs \<noteq> [] \<and>
      map (map_of fs) (list_images fs file_glob label_glob) = map Some rs \<and>
      p_images plan = list_images fs file_glob label_glob \<and>
      p_labels plan = list_labels fs label_glob (list_images fs file_glob label_glob) \<and>
      length (p_labels plan) = length (p_images plan) \<and>
      length rs = length (p_images plan) \<and>
      p_max_width plan = Max (set (map width rs)) \<and>
      p_max_height plan = Max (set (map height rs)) \<and>
      p_epsgs plan = map crs rs \<and>
      p_affines plan = map (\<lambda>r. to_gdal (transform r)) rs \<and>
      select_bands image_bands (map (\<lambda>r. length (pixels r)) rs) = Inr (p_bands plan)" ..
  then have m: "map (map_of fs) (p_images plan) = map Some rs" by (simp only:)
  show ?thesis
    by (rule that [of rs]) (use rs m in \<open>simp_all only: simp_thms\<close>)
qed

lemma plan_image_raster:
  assumes "convert_prepare fs file_glob label_glob image_bands = Inr plan"
    and "k < length (p_images plan)"
  shows "\<exists>r. map_of fs (p_images plan ! k) = Some r"
proof -
  from assms(1) obtain rs where rs: "rs \<noteq> []" "map (map_of fs) (p_images plan) = map Some rs"
    "length rs = length (p_images plan)"
    "p_max_width plan = Max (set (map width rs))"
    "p_max_height plan = Max (set (map height rs))"
    "p_epsgs plan = map crs rs"
    "p_affines plan = map (\<lambda>r. to_gdal (transform r)) rs"
    "select_bands image_bands (map (\<lambda>r. length (pixels r)) rs) = Inr (p_bands plan)"
    by (rule convert_plan_rasters)
  have "map (map_of fs) (p_images plan) ! k = map Some rs ! k" by (simp only: rs(2))
  with assms(2) rs(3) show ?thesis by simp
qed

lemma plan_nonempty:
  assumes "convert_prepare fs file_glob label_glob image_bands = Inr plan"
  shows "0 < length (p_images plan)"
proof -
  from assms obtain rs where rs: "rs \<noteq> []" "map (map_of fs) (p_images plan) = map Some rs"
    "length rs = length (p_images plan)"
    "p_max_width plan = Max (set (map width rs))"
    "p_max_height plan = Max (set (map height rs))"
    "p_epsgs plan = map crs rs"
    "p_affines plan = map (\<lambda>r. to_gdal (transform r)) rs"
    "select_bands image_bands (map (\<lambda>r. length (pixels r)) rs) = Inr (p_bands plan)"
    by (rule convert_plan_rasters)
  from rs(1,3) show ?thesis by (cases rs) auto
qed

lemma ex_load_img:
  "sequence_r (map (\<lambda>p. load_img example_fs p 2 1 [1, 2]) [(''a'', ''img.tif'')]) =
     Inr [[[[7, 8]], [[9, 65535]]]]"
  by code_simp

lemma ex_load_lbl:
  "sequence_r (map (\<lambda>p. load_lbl example_fs p 2 1) [(''a'', ''label.tif'')]) = Inr [[[1, 0]]]"
  by code_simp

lemma ex_stem: "stem ''img.tif'' = ''img''"
  by code_simp

lemma ex_values: "band_values [[[[7, 8]], [[9, 65535]]]] 0 = [7, 8]"
    "band_values [[[[7, 8]], [[9, 65535]]]] (Suc 0) = [9, 65535]"
  by (simp_all add: band_values_def)

lemma example_converted:
  "convert_img_to_h5 example_fs is_tif is_label None = (None, Complete example_packed)"
proof -
  have "convert_write example_fs \<lparr>p_images = [(''a'', ''img.tif'')], p_labels = [(''a'', ''label.tif'')],
        p_max_width = 2, p_max_height = 1, p_bands = [1, 2], p_epsgs = [32601],
        p_affines = [(500, 10, 0, 900, 0, - 10)], p_warning = False\<rparr> = Inr example_packed"
    unfolding convert_write_def conversion_plan.simps ex_load_img ex_load_lbl sum.case
    by (simp add: example_packed_def ex_stem ex_values upt_conv_Cons)
  then show ?thesis by (simp add: convert_img_to_h5_def ex_prep)
qed

lemma example_fs_wf: "list_all (\<lambda>(p, r). wf_raster r) example_fs"
  by (simp add: example_fs_def example_raster_def example_label_def raster_of_def wf_raster_def
      is_shape3_def is_shape2_def)


subsection \<open>The band checks\<close>

lemma remdups_single:
  assumes "length (remdups xs) = 1" and "x \<in> set xs" and "y \<in> set xs"
  shows "x = y"
proof -
  from assms(1) have "card (set xs) = 1" by (simp add: length_remdups_card_conv)
  then obtain a where "set xs = {a}" by (rule card_1_singletonE)
  with assms(2,3) show ?thesis by simp
qed

lemma remdups_constant:
  assumes "xs \<noteq> []" and "\<forall>x \<in> set xs. x = n"
  shows "length (remdups xs) = 1"
proof -
  from assms have "set xs = {n}" by (cases xs) auto
  then show ?thesis by (simp add: length_remdups_card_conv)
qed

lemma Max_constant:
  assumes "xs \<noteq> []" and "\<forall>x \<in> set xs. x = (n::nat)"
  shows "Max (set xs) = n"
proof -
  from assms have "set xs = {n}" by (cases xs) auto
  then show ?thesis by simp
qed

lemma size_warning_wf:
  assumes "rs \<noteq> []" and "list_all wf_raster rs"
  shows "\<exists>w. size_warning (map width rs) (map height rs) = Inr w"
proof -
  from assms(1) obtain r where r: "r \<in> set rs" by (cases rs) auto
  with assms(2) have p: "0 < width r" "0 < height r" by (auto simp: list_all_iff wf_raster_def)
  from r have "width r \<le> Max (set (map width rs))" "height r \<le> Max (set (map height rs))"
    by (simp_all add: Max_ge)
  with p have "Max (set (map width rs)) \<noteq> 0" "Max (set (map height rs)) \<noteq> 0" by simp_all
  then show ?thesis by (auto simp: size_warning_def)
qed

lemma convert_prepare_bands:
  assumes "length (list_images fs file_glob label_glob) =
      length (list_labels fs label_glob (list_images fs file_glob label_glob))"
    and "map (map_of fs) (list_images fs file_glob label_glob) = map Some rs"
    and "rs \<noteq> []" and "list_all wf_raster rs"
  shows "(select_bands image_bands (map (\<lambda>r. length (pixels r)) rs) = Inl e \<longrightarrow>
           convert_prepare fs file_glob label_glob image_bands = Inl e) \<and>
         (select_bands image_bands (map (\<lambda>r. length (pixels r)) rs) = Inr sel \<longrightarrow>
           (\<exists>plan. convert_prepare fs file_glob label_glob image_bands = Inr plan \<and>
              p_bands plan = sel))"
proof -
  from size_warning_wf [OF assms(3,4)] obtain w where
    w: "size_warning (map width rs) (map height rs) = Inr w" by blast
  show ?thesis
    unfolding convert_prepare_value [OF assms(1,2,3)] w sum.case
    by (cases "select_bands image_bands (map (\<lambda>r. length (pixels r)) rs)") simp_all
qed

lemma exb_images:
  "length (list_images example_fs_bands is_tif is_label) =
     length (list_labels example_fs_bands is_label (list_images example_fs_bands is_tif is_label))"
  "map (map_of example_fs_bands) (list_images example_fs_bands is_tif is_label) =
     map Some [raster_of [[[7, 8]], [[9, 10]]], raster_of [[[3, 4]]]]"
  by code_simp+

lemma ex_images:
  "length (list_images example_fs is_tif is_label) =
     length (list_labels example_fs is_label (list_images example_fs is_tif is_label))"
  "map (map_of example_fs) (list_images example_fs is_tif is_label) = map Some [example_raster]"
  by code_simp+

lemma exb_wf: "list_all wf_raster [raster_of [[[7, 8]], [[9, 10]]], raster_of [[[3, 4]]]]"
  by (simp add: raster_of_def wf_raster_def is_shape3_def is_shape2_def)

lemma ex_wf: "list_all wf_raster [example_raster]"
  by (simp add: example_raster_def raster_of_def wf_raster_def is_shape3_def is_shape2_def)

lemma exb_prep_empty:
  "convert_prepare example_fs_bands is_tif is_label (Some []) =
     Inr \<lparr>p_images = [(''a'', ''img.tif''), (''b'', ''img.tif'')],
          p_labels = [(''a'', ''label.tif''), (''b'', ''label.tif'')],
          p_max_width = 2, p_max_height = 1, p_bands = [1, 2], p_epsgs = [32601, 32601],
          p_affines = [(500, 10, 0, 900, 0, - 10), (500, 10, 0, 900, 0, - 10)],
          p_warning = False\<rparr>"
  by code_simp

lemma exb_load_img:
  "sequence_r (map (\<lambda>p. load_img example_fs_bands p 2 1 [1, 2])
     [(''a'', ''img.tif''), (''b'', ''img.tif'')]) = Inl IndexError"
  by code_simp


subsection \<open>The file the label is read from\<close>















subsection \<open>Packing and reconstructing one row\<close>

















section \<open>Properties of the tile geotransforms\<close>

lemma affine_from_rowcol_formula:
  "affine_from_rowcol (a0, a1, a2, a3, a4, a5) row col =
     (a0 + of_int col * a1 + of_int row * a2, a1, a2,
      a3 + of_int col * a4 + of_int row * a5, a4, a5)"
  by (simp add: xy_ul_def affine_mul_def)

lemma product_as_concat:
  "concat (map (\<lambda>x. map (\<lambda>y. f x y) ys) xs) = map (\<lambda>(x, y). f x y) (List.product xs ys)"
  by (induction xs) simp_all

text \<open>
  Claim C1. For a parent geotransform \<open>(a0, a1, a2, a3, a4, a5)\<close> the Tiler's
  geotransforms are, for the tile origins \<open>(row_offset, col_offset)\<close> enumerated
  from the offsets \<open>range(0, target_size - tile_size + 1, overlap)\<close> with rows outer
  and columns inner,
  \<open>(a0 + col_offset * a1 + row_offset * a2, a1, a2, a3 + col_offset * a4 + row_offset * a5, a4, a5)\<close>:
  the four scale and rotation terms are the parent's and only the two origin terms move.
\<close>

theorem tile_geotransform_formula:
  assumes "py_range (target_size - tile_size + 1) overlap = Inr offs"
  shows "tile_one_affine (a0, a1, a2, a3, a4, a5) target_size tile_size overlap =
           Inr (map (\<lambda>(row_offset, col_offset).
                      (a0 + of_int col_offset * a1 + of_int row_offset * a2, a1, a2,
                       a3 + of_int col_offset * a4 + of_int row_offset * a5, a4, a5))
                    (List.product offs offs))"
  using assms
  by (simp add: tile_one_affine_def product_as_concat affine_from_rowcol_formula
      del: affine_from_rowcol.simps)

theorem tile_geotransform_formula_witness:
  "py_range (4 - 2 + 1) 2 = Inr [0, 2] \<and>
   tile_one_affine (100, 10, 0, 200, 0, -10) 4 2 2 =
     Inr [(100, 10, 0, 200, 0, -10), (120, 10, 0, 200, 0, -10),
          (100, 10, 0, 180, 0, -10), (120, 10, 0, 180, 0, -10)]"
proof -
  have r: "py_range (4 - 2 + 1) 2 = Inr [0, 2]"
    by (simp add: py_range_def range_len_def upt_rec)
  show ?thesis
    using r tile_geotransform_formula [OF r, of 100 10 0 200 0 "-10"] by simp
qed

section \<open>Tile order and tile content\<close>



section \<open>The parallel-array invariant of the Tiler\<close>

text \<open>
  Claim C3, as amended. On a packed store (one that has the parallel-array invariant) a
  successful run of the Tiler writes image rows, label rows, identifiers, EPSG entries and
  geotransform entries of leading length exactly \<open>N * n_tiles\<close> with
  \<open>n_tiles = ((target_size - tile_size) div overlap + 1)\<^sup>2\<close>, in the layout
  \<open>[N * n_tiles, C, tile_size, tile_size]\<close> and \<open>[N * n_tiles, 1, tile_size, tile_size]\<close>.
  On a store whose \<open>/img\<close> is \<open>[N, C, H, W]\<close> and whose label rows are \<open>[H, W]\<close>, in any number,
  a successful run writes \<open>N * n_tiles\<close> image rows, identifiers, EPSG entries and
  geotransform entries, and \<open>n_tiles\<close> label rows for every label row of the source: the
  number of label rows is not checked.
  When the number of generated identifiers, EPSG entries or geotransforms differs from
  the declared number of image rows, the run ends with the assertion failure of the
  count check and the destination has not been opened.
\<close>

theorem tiler_parallel_arrays:
  "(packed_store N C H W src \<and>
    tile_img_h5 src tile_size overlap target_size chunk_size = (None, Complete dst) \<longrightarrow>
      length (img dst) = N * nat (n_tiles_of target_size tile_size overlap) \<and>
      length (lbl dst) = N * nat (n_tiles_of target_size tile_size overlap) \<and>
      length (path dst) = N * nat (n_tiles_of target_size tile_size overlap) \<and>
      length (epsg dst) = N * nat (n_tiles_of target_size tile_size overlap) \<and>
      length (affine dst) = N * nat (n_tiles_of target_size tile_size overlap) \<and>
      spec_store (N * nat (n_tiles_of target_size tile_size overlap)) C
        (nat tile_size) (nat tile_size) dst) \<and>
   (is_shape4 N C H W (img src) \<and> list_all (lbl_has_shape [H, W]) (lbl src) \<and>
    tile_img_h5 src tile_size overlap target_size chunk_size = (None, Complete dst) \<longrightarrow>
      length (img dst) = N * nat (n_tiles_of target_size tile_size overlap) \<and>
      length (lbl dst) = length (lbl src) * nat (n_tiles_of target_size tile_size overlap) \<and>
      length (path dst) = N * nat (n_tiles_of target_size tile_size overlap) \<and>
      length (epsg dst) = N * nat (n_tiles_of target_size tile_size overlap) \<and>
      length (affine dst) = N * nat (n_tiles_of target_size tile_size overlap)) \<and>
   (list_all is_Lbl2 (lbl src) \<and> overlap \<noteq> 0 \<and> path src \<noteq> [] \<and>
    (int (length (path src)) * n_tiles_of target_size tile_size overlap \<noteq>
       int (length (img src)) * n_tiles_of target_size tile_size overlap \<or>
     int (length (epsg src)) * n_tiles_of target_size tile_size overlap \<noteq>
       int (length (img src)) * n_tiles_of target_size tile_size overlap \<or>
     int (length (affine src)) * (int (range_len (target_size - tile_size + 1) overlap))\<^sup>2 \<noteq>
       int (length (img src)) * n_tiles_of target_size tile_size overlap) \<longrightarrow>
      tile_img_h5 src tile_size overlap target_size chunk_size = (Some AssertionError, Absent))"
proof (intro conjI impI)
  assume a: "packed_store N C H W src \<and>
    tile_img_h5 src tile_size overlap target_size chunk_size = (None, Complete dst)"
  then have sp: "spec_store (N * nat (n_tiles_of target_size tile_size overlap)) C
        (nat tile_size) (nat tile_size) dst"
    using tiled_store_shape by blast
  then show "spec_store (N * nat (n_tiles_of target_size tile_size overlap)) C
        (nat tile_size) (nat tile_size) dst" .
  from sp show "length (img dst) = N * nat (n_tiles_of target_size tile_size overlap)"
    "length (lbl dst) = N * nat (n_tiles_of target_size tile_size overlap)"
    "length (path dst) = N * nat (n_tiles_of target_size tile_size overlap)"
    "length (epsg dst) = N * nat (n_tiles_of target_size tile_size overlap)"
    "length (affine dst) = N * nat (n_tiles_of target_size tile_size overlap)"
    by (simp_all add: spec_store_def store_shape_def is_shape4_def)
next
  assume b: "is_shape4 N C H W (img src) \<and> list_all (lbl_has_shape [H, W]) (lbl src) \<and>
    tile_img_h5 src tile_size overlap target_size chunk_size = (None, Complete dst)"
  then have ok: "tile_img_h5 src tile_size overlap target_size chunk_size = (None, Complete dst)"
    and sh: "is_shape4 N C H W (img src)" and lb: "list_all (lbl_has_shape [H, W]) (lbl src)"
    by simp_all
  from tile_rows_lengths [OF ok sh lb]
  show "length (img dst) = N * nat (n_tiles_of target_size tile_size overlap)"
    "length (lbl dst) = length (lbl src) * nat (n_tiles_of target_size tile_size overlap)"
    "length (path dst) = N * nat (n_tiles_of target_size tile_size overlap)"
    "length (epsg dst) = N * nat (n_tiles_of target_size tile_size overlap)"
    "length (affine dst) = N * nat (n_tiles_of target_size tile_size overlap)" .
next
  assume "list_all is_Lbl2 (lbl src) \<and> overlap \<noteq> 0 \<and> path src \<noteq> [] \<and>
    (int (length (path src)) * n_tiles_of target_size tile_size overlap \<noteq>
       int (length (img src)) * n_tiles_of target_size tile_size overlap \<or>
     int (length (epsg src)) * n_tiles_of target_size tile_size overlap \<noteq>
       int (length (img src)) * n_tiles_of target_size tile_size overlap \<or>
     int (length (affine src)) * (int (range_len (target_size - tile_size + 1) overlap))\<^sup>2 \<noteq>
       int (length (img src)) * n_tiles_of target_size tile_size overlap)"
  then show "tile_img_h5 src tile_size overlap target_size chunk_size = (Some AssertionError, Absent)"
    using tile_count_mismatch [of src overlap target_size tile_size chunk_size] by blast
qed

theorem tiler_parallel_arrays_witness:
  "packed_store 1 1 2 3 example_store \<and>
   tile_img_h5 example_store 2 1 3 1 = (None, Complete example_tiled) \<and>
   nat (n_tiles_of 3 2 1) = 4 \<and>
   length (img example_tiled) = 4 \<and> length (lbl example_tiled) = 4 \<and>
   length (path example_tiled) = 4 \<and> length (epsg example_tiled) = 4 \<and>
   length (affine example_tiled) = 4 \<and> spec_store 4 1 2 2 example_tiled \<and>
   is_shape4 1 1 2 3 (img example_store_two_labels) \<and>
   list_all (lbl_has_shape [2, 3]) (lbl example_store_two_labels) \<and>
   length (lbl example_store_two_labels) = 2 \<and>
   tile_img_h5 example_store_two_labels 2 1 3 1 = (None, Complete example_tiled_two_labels) \<and>
   length (img example_tiled_two_labels) = 4 \<and> length (lbl example_tiled_two_labels) = 8 \<and>
   length (path example_tiled_two_labels) = 4 \<and> length (epsg example_tiled_two_labels) = 4 \<and>
   length (affine example_tiled_two_labels) = 4 \<and>
   list_all is_Lbl2 (lbl example_store) \<and> (2::int) \<noteq> 0 \<and> path example_store \<noteq> [] \<and>
   int (length (affine example_store)) * (int (range_len (2 - 5 + 1) 2))\<^sup>2 \<noteq>
     int (length (img example_store)) * n_tiles_of 2 5 2 \<and>
   tile_img_h5 example_store 5 2 2 1 = (Some AssertionError, Absent)"
proof -
  have nt: "nat (n_tiles_of 3 2 1) = 4" by code_simp
  have l2: "list_all is_Lbl2 (lbl example_store)" by code_simp
  have pn: "path example_store \<noteq> []" by (simp add: example_store_def)
  have mm: "int (length (affine example_store)) * (int (range_len (2 - 5 + 1) 2))\<^sup>2 \<noteq>
     int (length (img example_store)) * n_tiles_of 2 5 2"
    by code_simp
  have nz: "(2::int) \<noteq> 0" by simp
  from tiler_parallel_arrays [of 1 1 2 3 example_store 2 1 3 1 example_tiled]
  have a: "length (img example_tiled) = 4 \<and> length (lbl example_tiled) = 4 \<and>
   length (path example_tiled) = 4 \<and> length (epsg example_tiled) = 4 \<and>
   length (affine example_tiled) = 4 \<and> spec_store 4 1 2 2 example_tiled"
    using example_store_packed example_store_tiled by (simp add: nt)
  from tiler_parallel_arrays [of 1 1 2 3 example_store_two_labels 2 1 3 1 example_tiled_two_labels]
  have c: "length (img example_tiled_two_labels) = 4 \<and> length (lbl example_tiled_two_labels) = 8 \<and>
   length (path example_tiled_two_labels) = 4 \<and> length (epsg example_tiled_two_labels) = 4 \<and>
   length (affine example_tiled_two_labels) = 4"
    using example_two_labels_rows example_two_labels_tiled by (simp add: nt)
  from tiler_parallel_arrays [of 1 1 2 3 example_store 5 2 2 1 example_tiled]
  have b: "tile_img_h5 example_store 5 2 2 1 = (Some AssertionError, Absent)"
    using l2 pn mm nz by blast
  from a b c nt l2 pn mm example_store_packed example_store_tiled example_two_labels_rows
    example_two_labels_tiled
  show ?thesis by simp
qed

text \<open>
  Claim C3, as stated, lets the run fail when any of the five counts disagrees. The store
  with one image row and two label rows is tiled without an exception into a store with
  4 image rows and 8 label rows.
\<close>

theorem tiler_label_count_counterexample:
  "length (img example_store_two_labels) = 1 \<and> length (lbl example_store_two_labels) = 2 \<and>
   length (path example_store_two_labels) = 1 \<and> length (epsg example_store_two_labels) = 1 \<and>
   length (affine example_store_two_labels) = 1 \<and>
   tile_img_h5 example_store_two_labels 2 1 3 1 = (None, Complete example_tiled_two_labels) \<and>
   length (img example_tiled_two_labels) = 4 \<and> length (lbl example_tiled_two_labels) = 8"
  using example_two_labels_rows example_two_labels_tiled
  by (simp add: example_tiled_two_labels_def example_tiled_def)

section \<open>A tile size above the target size\<close>

text \<open>
  Claim C8, as amended. The code has no check of \<open>tile_size\<close> against
  \<open>target_size\<close>. On a non-empty packed store with \<open>0 < overlap\<close> and
  \<open>target_size < tile_size\<close> the Tiler always fails: when
  \<open>target_size - tile_size < - overlap\<close> the geotransform count check raises its
  assertion before the destination is opened; when
  \<open>- overlap \<le> target_size - tile_size\<close> the tile count is 0, every count check
  passes, the destination is opened, and the failure is the ValueError raised while
  the datasets are created.
\<close>

theorem tile_size_above_target_size:
  assumes "packed_store N C H W src" and "0 < N" and "0 < overlap" and "target_size < tile_size"
  shows "(target_size - tile_size < - overlap \<longrightarrow>
            tile_img_h5 src tile_size overlap target_size chunk_size = (Some AssertionError, Absent)) \<and>
         (- overlap \<le> target_size - tile_size \<longrightarrow>
            tile_img_h5 src tile_size overlap target_size chunk_size = (Some ValueError, Partial))"
proof (intro conjI impI)
  let ?nt = "n_tiles_of target_size tile_size overlap"
  have l2: "list_all is_Lbl2 (lbl src)" using assms(1) by (rule packed_store_all_Lbl2)
  have lens: "length (img src) = N" "length (path src) = N" "length (epsg src) = N"
    "length (affine src) = N"
    using packed_storeD(1,5,6,7) [OF assms(1)] by simp_all
  have pn: "path src \<noteq> []" using lens(2) assms(2) by auto
  have rl: "range_len (target_size - tile_size + 1) overlap = nat (n_side target_size tile_size overlap)"
    using assms(3) by (rule range_len_n_side)
  {
    assume "target_size - tile_size < - overlap"
    with assms(3) have neg: "n_side target_size tile_size overlap < 0" by (rule n_side_far_below)
    then have "0 < ?nt" by (simp add: n_tiles_of_def)
    with assms(2) have p: "0 < int N * ?nt" by simp
    have z: "int N * (int (range_len (target_size - tile_size + 1) overlap))\<^sup>2 = 0"
      using neg by (simp add: rl)
    have "int N * (int (range_len (target_size - tile_size + 1) overlap))\<^sup>2 \<noteq> int N * ?nt"
    proof
      assume "int N * (int (range_len (target_size - tile_size + 1) overlap))\<^sup>2 = int N * ?nt"
      with z have "int N * ?nt = 0" by (simp only:)
      with p show False by (simp only: less_irrefl)
    qed
    then have "int (length (affine src)) *
        (int (range_len (target_size - tile_size + 1) overlap))\<^sup>2 \<noteq> int (length (img src)) * ?nt"
      unfolding lens .
    with l2 pn assms(3)
    show "tile_img_h5 src tile_size overlap target_size chunk_size = (Some AssertionError, Absent)"
      by (intro tile_count_mismatch) simp_all
  }
  {
    assume "- overlap \<le> target_size - tile_size"
    with assms(3,4) have z: "n_side target_size tile_size overlap = 0" by (intro n_side_just_below)
    then have nt: "?nt = 0" by (simp add: n_tiles_of_def)
    have r0: "range_len (target_size - tile_size + 1) overlap = 0" by (simp add: rl z)
    have "tile_one_affine a target_size tile_size overlap = Inr ((\<lambda>a. []) a)" for a
      using assms(3) by (simp add: tile_one_affine_def py_range_def r0)
    then have "tile_affines (affine src) target_size tile_size overlap 0 =
        (if (0::int) \<noteq> int (length (concat (map (\<lambda>a. []::geotransform list) (affine src))))
         then Inl AssertionError else Inr (concat (map (\<lambda>a. []) (affine src))))"
      by (rule tile_affines_value)
    then have ta: "tile_affines (affine src) target_size tile_size overlap 0 = Inr []"
      by (simp add: concat_map_Nil)
    have "concat (map (\<lambda>p. []::string list) (path src)) = []" by (rule concat_map_Nil)
    then have tp: "tile_paths (path src) 0 0 = Inr []"
      using pn by (simp add: tile_paths_def Let_def del: str_nat.simps)
    have "concat (map (\<lambda>p. []::int list) (epsg src)) = []" by (rule concat_map_Nil)
    then have te: "tile_epsgs (epsg src) 0 0 = Inr []"
      by (simp add: tile_epsgs_def Let_def)
    have prep: "tile_prepare src tile_size overlap target_size = Inr (0, [], [], [])"
      using l2 assms(3) tp te ta by (simp add: tile_prepare_def Let_def nt)
    have "chunk_size \<le> 0 \<or> int (length (img src)) * 0 < chunk_size" by auto
    then have "tile_write src tile_size overlap target_size chunk_size (0, [], [], []) = Inl ValueError"
      unfolding tile_write_def by (simp only: prod.case if_True)
    with prep
    show "tile_img_h5 src tile_size overlap target_size chunk_size = (Some ValueError, Partial)"
      by (simp add: tile_img_h5_def)
  }
qed

theorem tile_size_above_target_size_witness:
  "packed_store 1 1 2 3 example_store \<and> (0::nat) < 1 \<and> (0::int) < 2 \<and> (2::int) < 5 \<and>
   (2::int) - 5 < - 2 \<and> tile_img_h5 example_store 5 2 2 1 = (Some AssertionError, Absent) \<and>
   (2::int) < 3 \<and> - 2 \<le> (2::int) - 3 \<and>
   tile_img_h5 example_store 3 2 2 1 = (Some ValueError, Partial)"
proof -
  have a: "(0::nat) < 1" "(0::int) < 2" "(2::int) < 5" "(2::int) < 3" by simp_all
  from tile_size_above_target_size [OF example_store_packed a(1,2,3), of 1]
  have x: "tile_img_h5 example_store 5 2 2 1 = (Some AssertionError, Absent)" by simp
  from tile_size_above_target_size [OF example_store_packed a(1,2,4), of 1]
  have y: "tile_img_h5 example_store 3 2 2 1 = (Some ValueError, Partial)" by simp
  from x y example_store_packed show ?thesis by simp
qed

text \<open>
  Claim C8 as stated fails: with tile size 3, overlap 2 and target size 2 the example
  store passes every check made before the destination is opened, and the exception
  comes only afterwards.
\<close>

theorem tile_size_above_target_size_counterexample:
  "(2::int) < 3 \<and> tile_img_h5 example_store 3 2 2 1 = (Some ValueError, Partial)"
  by code_simp

section \<open>The int16 cast of the Tiler\<close>

text \<open>
  Claim C9. The Tiler casts \<open>/img\<close>, \<open>/lbl\<close>, \<open>/img_means\<close> and \<open>/img_stds\<close> to int16
  before tiling: a tiled image pixel and a tiled label pixel are the int16 casts of the
  source pixel of the padded canvas, so each equals the source value exactly when that
  value is representable in int16, and a source value from 32768 to 65535 comes out
  lowered by 65536; a band statistic survives the cast exactly when it is an integer
  representable in int16, and a statistic in \<open>[0, 32768)\<close> is cut down to its integer part.
\<close>

theorem tiler_casts_to_int16:
  assumes "tile_img_h5 src tile_size overlap target_size chunk_size = (None, Complete dst)"
    and "packed_store N C H W src"
    and "k < N" and "i < nat (n_tiles_of target_size tile_size overlap)"
    and "c < C" and "y < nat tile_size" and "x < nat tile_size"
    and "v = padded_pixel (img src ! k) c
              (fst (tile_origin target_size tile_size overlap i) + y)
              (snd (tile_origin target_size tile_size overlap i) + x)"
    and "p = img dst ! (k * nat (n_tiles_of target_size tile_size overlap) + i) ! c ! y ! x"
    and "u = padded_pixel [lbl_band (lbl src ! k)] 0
              (fst (tile_origin target_size tile_size overlap i) + y)
              (snd (tile_origin target_size tile_size overlap i) + x)"
    and "q = lbl_band (lbl dst ! (k * nat (n_tiles_of target_size tile_size overlap) + i)) ! y ! x"
  shows "p = astype_int16 v \<and>
         (p = v \<longleftrightarrow> - 32768 \<le> v \<and> v < 32768) \<and>
         (32768 \<le> v \<and> v < 65536 \<longrightarrow> p = v - 65536) \<and>
         q = astype_int16 u \<and>
         (q = u \<longleftrightarrow> - 32768 \<le> u \<and> u < 32768) \<and>
         (32768 \<le> u \<and> u < 65536 \<longrightarrow> q = u - 65536) \<and>
         img_means dst = map float_to_int16 (img_means src) \<and>
         img_stds dst = map float_to_int16 (img_stds src) \<and>
         (real_of_int (img_means dst ! c) = img_means src ! c \<longleftrightarrow>
            img_means src ! c \<in> \<int> \<and> - 32768 \<le> img_means src ! c \<and> img_means src ! c < 32768) \<and>
         (0 \<le> img_means src ! c \<and> img_means src ! c < 32768 \<longrightarrow>
            img_means dst ! c = \<lfloor>img_means src ! c\<rfloor>) \<and>
         (real_of_int (img_stds dst ! c) = img_stds src ! c \<longleftrightarrow>
            img_stds src ! c \<in> \<int> \<and> - 32768 \<le> img_stds src ! c \<and> img_stds src ! c < 32768) \<and>
         (0 \<le> img_stds src ! c \<and> img_stds src ! c < 32768 \<longrightarrow>
            img_stds dst ! c = \<lfloor>img_stds src ! c\<rfloor>)"
proof -
  have p: "p = astype_int16 v"
    unfolding assms(8,9) using assms(1-7) by (rule tiled_img_pixel(1))
  have q: "q = astype_int16 u"
    unfolding assms(10,11) using assms(1-4,6,7) by (rule tiled_lbl_pixel(1))
  have m: "img_means dst = map float_to_int16 (img_means src)"
    and s: "img_stds dst = map float_to_int16 (img_stds src)"
    using tile_success_store(6,7) [OF assms(1,2)] by simp_all
  have cm: "c < length (img_means src)" and cs: "c < length (img_stds src)"
    using packed_storeD(8,9) [OF assms(2)] assms(5) by simp_all
  have a: "p = v \<longleftrightarrow> - 32768 \<le> v \<and> v < 32768"
    unfolding p by (rule astype_int16_id_iff)
  have b: "32768 \<le> v \<and> v < 65536 \<longrightarrow> p = v - 65536"
    unfolding p by (simp add: astype_int16_high)
  have a': "q = u \<longleftrightarrow> - 32768 \<le> u \<and> u < 32768"
    unfolding q by (rule astype_int16_id_iff)
  have b': "32768 \<le> u \<and> u < 65536 \<longrightarrow> q = u - 65536"
    unfolding q by (simp add: astype_int16_high)
  note cm' = cast_stat_nth [OF cm, folded m]
  note cs' = cast_stat_nth [OF cs, folded s]
  from p a b q a' b' m s cm' cs' show ?thesis by blast
qed

theorem tiler_casts_to_int16_witness:
  "tile_img_h5 example_store 2 1 3 1 = (None, Complete example_tiled) \<and>
   packed_store 1 1 2 3 example_store \<and>
   padded_pixel (img example_store ! 0) 0 (fst (tile_origin 3 2 1 3) + 0) (snd (tile_origin 3 2 1 3) + 1)
     = 40000 \<and>
   img example_tiled ! (0 * nat (n_tiles_of 3 2 1) + 3) ! 0 ! 0 ! 1 = - 25536 \<and>
   padded_pixel [lbl_band (lbl example_store ! 0)] 0
     (fst (tile_origin 3 2 1 3) + 0) (snd (tile_origin 3 2 1 3) + 1) = 0 \<and>
   lbl_band (lbl example_tiled ! (0 * nat (n_tiles_of 3 2 1) + 3)) ! 0 ! 1 = astype_int16 0 \<and>
   img_means example_store = [5 / 2] \<and> img_means example_tiled = [2] \<and>
   img_stds example_store = [3 / 2] \<and> img_stds example_tiled = [1]"
proof -
  have i: "(3::nat) < nat (n_tiles_of 3 2 1)" by code_simp
  have v: "(40000::int) = padded_pixel (img example_store ! 0) 0
      (fst (tile_origin 3 2 1 3) + 0) (snd (tile_origin 3 2 1 3) + 1)"
    by code_simp
  have u: "(0::int) = padded_pixel [lbl_band (lbl example_store ! 0)] 0
      (fst (tile_origin 3 2 1 3) + 0) (snd (tile_origin 3 2 1 3) + 1)"
    by code_simp
  have hi: "(32768::int) \<le> 40000 \<and> (40000::int) < 65536" by simp
  have "img example_tiled ! (0 * nat (n_tiles_of 3 2 1) + 3) ! 0 ! 0 ! 1 = astype_int16 40000 \<and>
      (32768 \<le> (40000::int) \<and> (40000::int) < 65536 \<longrightarrow>
        img example_tiled ! (0 * nat (n_tiles_of 3 2 1) + 3) ! 0 ! 0 ! 1 = 40000 - 65536) \<and>
      lbl_band (lbl example_tiled ! (0 * nat (n_tiles_of 3 2 1) + 3)) ! 0 ! 1 = astype_int16 0"
    using tiler_casts_to_int16 [OF example_store_tiled example_store_packed _ i _ _ _ v refl u refl]
    by simp
  then have "img example_tiled ! (0 * nat (n_tiles_of 3 2 1) + 3) ! 0 ! 0 ! 1 = 40000 - 65536"
    "lbl_band (lbl example_tiled ! (0 * nat (n_tiles_of 3 2 1) + 3)) ! 0 ! 1 = astype_int16 0"
    using hi by simp_all
  moreover have "img_means example_store = [5 / 2]" "img_stds example_store = [3 / 2]"
    "img_means example_tiled = [2]" "img_stds example_tiled = [1]"
    by (simp_all add: example_store_def example_tiled_def)
  ultimately show ?thesis
    using example_store_tiled example_store_packed v [symmetric] u [symmetric] by simp
qed


section \<open>Padding to the common canvas\<close>

text \<open>
  Claim C5. The canvas of the ImagePacker is (maximum height, maximum width) over the probed
  images: every image fits, and both maxima are attained.  Item \<open>k\<close> of a successful conversion
  is padded to the canvas at the bottom and at the right only: at band position \<open>c\<close>, row \<open>i\<close> and
  column \<open>j\<close> of the canvas the packed image holds the pixel of the selected band
  \<open>p_bands plan ! c\<close> of the source when \<open>i\<close> is below the source height and \<open>j\<close> below the source
  width, and 0 otherwise; the label row is padded in the same way from band 1 of the label raster.
\<close>

theorem packer_pads_bottom_and_right:
  assumes "convert_img_to_h5 fs file_glob label_glob image_bands = (None, Complete st)"
    and "convert_prepare fs file_glob label_glob image_bands = Inr plan"
    and "k < length (p_images plan)"
    and "map_of fs (p_images plan ! k) = Some r" and "wf_raster r"
    and "map_of fs (fst (p_labels plan ! k), ''label.tif'') = Some l" and "wf_raster l"
    and "c < length (p_bands plan)" and "i < p_max_height plan" and "j < p_max_width plan"
  shows "(\<forall>k' < length (p_images plan). \<forall>r'. map_of fs (p_images plan ! k') = Some r' \<longrightarrow>
            height r' \<le> p_max_height plan \<and> width r' \<le> p_max_width plan) \<and>
         (\<exists>k' < length (p_images plan). \<exists>r'. map_of fs (p_images plan ! k') = Some r' \<and>
            height r' = p_max_height plan) \<and>
         (\<exists>k' < length (p_images plan). \<exists>r'. map_of fs (p_images plan ! k') = Some r' \<and>
            width r' = p_max_width plan) \<and>
         is_shape3 (length (p_bands plan)) (p_max_height plan) (p_max_width plan) (img st ! k) \<and>
         img st ! k ! c ! i ! j =
           (if i < height r \<and> j < width r then pixels r ! nat (p_bands plan ! c - 1) ! i ! j else 0) \<and>
         lbl_has_shape [p_max_height plan, p_max_width plan] (lbl st ! k) \<and>
         lbl_band (lbl st ! k) ! i ! j =
           (if i < height l \<and> j < width l then pixels l ! 0 ! i ! j else 0)"
proof -
  note im = packed_img_row [OF assms(1,2,3,4,5)]
  from packed_lbl_row [OF assms(1,2,3)] assms(6,7) obtain b where
    b: "lbl st ! k = Lbl2 b" "is_shape2 (p_max_height plan) (p_max_width plan) b"
      "\<forall>i < p_max_height plan. \<forall>j < p_max_width plan.
         b ! i ! j = (if i < height l \<and> j < width l then pixels l ! 0 ! i ! j else 0)"
    by auto
  from b(3) assms(9,10) have "b ! i ! j = (if i < height l \<and> j < width l then pixels l ! 0 ! i ! j else 0)"
    by blast
  with b(1,2) have lb: "lbl_has_shape [p_max_height plan, p_max_width plan] (lbl st ! k)"
    "lbl_band (lbl st ! k) ! i ! j = (if i < height l \<and> j < width l then pixels l ! 0 ! i ! j else 0)"
    by simp_all
  from im(4) [OF assms(8,9,10)] have px: "img st ! k ! c ! i ! j =
      (if i < height r \<and> j < width r then pixels r ! nat (p_bands plan ! c - 1) ! i ! j else 0)"
    by blast
  from canvas_is_maximum [OF assms(2)] im(3) px lb show ?thesis by blast
qed

theorem packer_pads_bottom_and_right_witness:
  "convert_img_to_h5 example_fs10 is_tif is_label None = (None, Complete example_packed10) \<and>
   convert_prepare example_fs10 is_tif is_label None = Inr example_plan10 \<and>
   map_of example_fs10 (p_images example_plan10 ! 0) = Some (raster_of [[[5]]]) \<and>
   wf_raster (raster_of [[[5]]]) \<and>
   map_of example_fs10 (fst (p_labels example_plan10 ! 0), ''label.tif'') = Some (raster_of [[[1]]]) \<and>
   wf_raster (raster_of [[[1]]]) \<and>
   p_max_height example_plan10 = 1 \<and> p_max_width example_plan10 = 2 \<and>
   width (raster_of [[[5]]]) = 1 \<and>
   img example_packed10 ! 0 ! 0 ! 0 ! 1 = 0 \<and> lbl_band (lbl example_packed10 ! 0) ! 0 ! 1 = 0"
proof -
  have k: "0 < length (p_images example_plan10)" by (simp add: ex10_fields)
  have r: "map_of example_fs10 (p_images example_plan10 ! 0) = Some (raster_of [[[5]]])"
    by code_simp
  have l: "map_of example_fs10 (fst (p_labels example_plan10 ! 0), ''label.tif'') = Some (raster_of [[[1]]])"
    by code_simp
  have wr: "wf_raster (raster_of [[[5]]])" and wl: "wf_raster (raster_of [[[1]]])"
    by (simp_all add: wf_raster_def raster_of_def is_shape3_def is_shape2_def)
  have c: "0 < length (p_bands example_plan10)" "0 < p_max_height example_plan10"
    "1 < p_max_width example_plan10"
    by (simp_all add: ex10_fields)
  have w1: "width (raster_of [[[5]]]) = 1" "width (raster_of [[[1]]]) = 1"
    by (simp_all add: raster_of_def)
  from packer_pads_bottom_and_right [OF example10_converted ex10_prep k r wr l wl c]
  have "img example_packed10 ! 0 ! 0 ! 0 ! 1 = 0 \<and> lbl_band (lbl example_packed10 ! 0) ! 0 ! 1 = 0"
    by (simp add: w1)
  with example10_converted ex10_prep r l wr wl w1 show ?thesis
    by (simp add: ex10_fields)
qed


section \<open>The layout of the packed store\<close>

text \<open>
  Claim C7, as amended.  On success the store written by the ImagePacker holds \<open>/img\<close> of shape
  \<open>[N, C, H, W]\<close>, \<open>/lbl\<close> of shape \<open>[N, H, W]\<close> (rows of rank 2, without a band axis), \<open>/path\<close>,
  \<open>/epsg\<close> and \<open>/affine\<close> of length \<open>N\<close>, and \<open>/img_means\<close> and \<open>/img_stds\<close> of length \<open>C\<close>, where
  \<open>N\<close> is the number of images, \<open>C\<close> the number of selected bands and \<open>(H, W)\<close> the canvas.
\<close>

theorem packed_store_layout:
  assumes "convert_img_to_h5 fs file_glob label_glob image_bands = (None, Complete st)"
    and "convert_prepare fs file_glob label_glob image_bands = Inr plan"
    and "list_all (\<lambda>(p, r). wf_raster r) fs"
  shows "packed_store (length (p_images plan)) (length (p_bands plan))
           (p_max_height plan) (p_max_width plan) st"
proof -
  let ?N = "length (p_images plan)" and ?C = "length (p_bands plan)"
  let ?H = "p_max_height plan" and ?W = "p_max_width plan"
  note rows = convert_success_rows [OF assms(1,2)]
  have im: "is_shape3 ?C ?H ?W (img st ! k)" if "k < ?N" for k
  proof -
    from plan_image_raster [OF assms(2) that] obtain r where r: "map_of fs (p_images plan ! k) = Some r"
      by blast
    from packed_img_row(3) [OF assms(1,2) that r wf_fs_lookup [OF assms(3) r]] show ?thesis .
  qed
  have lb: "lbl_has_shape [?H, ?W] (lbl st ! k)" if "k < ?N" for k
  proof -
    have "wf_raster l" if "map_of fs (fst (p_labels plan ! k), ''label.tif'') = Some l" for l
      using assms(3) that by (rule wf_fs_lookup)
    from packed_lbl_row [OF assms(1,2) that this]
    obtain b where "lbl st ! k = Lbl2 b" "is_shape2 ?H ?W b" by blast
    then show ?thesis by simp
  qed
  have i4: "is_shape4 ?N ?C ?H ?W (img st)"
    using rows(1) im by (simp add: is_shape4_def list_all_length)
  have l4: "list_all (lbl_has_shape [?H, ?W]) (lbl st)"
    using rows(2) lb by (simp add: list_all_length)
  from plan_nonempty [OF assms(2)] rows(1) obtain x xs where x: "img st = x # xs"
    by (cases "img st") auto
  with im [of 0] plan_nonempty [OF assms(2)] have fl: "first_len (img st) = ?C"
    by (simp add: is_shape3_def)
  from assms(2) obtain rs where rs: "rs \<noteq> []" "map (map_of fs) (p_images plan) = map Some rs"
    "length rs = length (p_images plan)"
    "p_max_width plan = Max (set (map width rs))"
    "p_max_height plan = Max (set (map height rs))"
    "p_epsgs plan = map crs rs"
    "p_affines plan = map (\<lambda>r. to_gdal (transform r)) rs"
    "select_bands image_bands (map (\<lambda>r. length (pixels r)) rs) = Inr (p_bands plan)"
    by (rule convert_plan_rasters)
  from rs(3,6,7) have le: "length (p_epsgs plan) = ?N" "length (p_affines plan) = ?N"
    by simp_all
  show ?thesis
    unfolding packed_store_def store_shape_def
    using i4 l4 rows(2) le by (simp add: rows(3,4,5,6,7) fl)
qed

theorem packed_store_layout_witness:
  "convert_img_to_h5 example_fs is_tif is_label None = (None, Complete example_packed) \<and>
   list_all (\<lambda>(p, r). wf_raster r) example_fs \<and>
   packed_store 1 2 1 2 example_packed"
proof -
  have "packed_store 1 2 1 2 example_packed"
    using packed_store_layout [OF example_converted ex_prep example_fs_wf]
    by (simp add: numeral_2_eq_2)
  with example_converted example_fs_wf show ?thesis by (simp only: simp_thms)
qed

text \<open>
  Claim C7, as stated, asks for \<open>/lbl\<close> of shape \<open>[N, 1, H, W]\<close>.  The store packed from the
  one-image example has label rows of rank 2 and so does not have the stated layout.
\<close>

theorem packed_label_rank_counterexample:
  "convert_img_to_h5 example_fs is_tif is_label None = (None, Complete example_packed) \<and>
   \<not> spec_store 1 2 1 2 example_packed"
  using example_converted
  by (simp add: spec_store_def store_shape_def example_packed_def)


section \<open>The band selection of the ImagePacker\<close>

text \<open>
  Claim C6, as amended. Let the image and label counts agree and let every image open as a
  well-formed raster. With a non-empty band list, packing ends with an assertion failure
  and the destination unopened when two images differ in their band count, and when all
  images have \<open>n\<close> bands and the largest requested index is above \<open>n\<close>; when all images have
  \<open>n\<close> bands and no requested index is above \<open>n\<close>, the checks pass and the selection is the
  requested list. With no band list the checks pass and the selection is every band from 1
  to the largest band count. An empty band list is treated as no band list.
\<close>

theorem band_selection_checked:
  assumes "length (list_images fs file_glob label_glob) =
      length (list_labels fs label_glob (list_images fs file_glob label_glob))"
    and "map (map_of fs) (list_images fs file_glob label_glob) = map Some rs"
    and "rs \<noteq> []" and "list_all wf_raster rs"
  shows "(bs \<noteq> [] \<and> (\<exists>r \<in> set rs. \<exists>r' \<in> set rs. length (pixels r) \<noteq> length (pixels r')) \<longrightarrow>
            convert_img_to_h5 fs file_glob label_glob (Some bs) = (Some AssertionError, Absent)) \<and>
         (bs \<noteq> [] \<and> (\<forall>r \<in> set rs. length (pixels r) = n) \<and> int n < Max (set bs) \<longrightarrow>
            convert_img_to_h5 fs file_glob label_glob (Some bs) = (Some AssertionError, Absent)) \<and>
         (bs \<noteq> [] \<and> (\<forall>r \<in> set rs. length (pixels r) = n) \<and> Max (set bs) \<le> int n \<longrightarrow>
            (\<exists>plan. convert_prepare fs file_glob label_glob (Some bs) = Inr plan \<and>
               p_bands plan = bs)) \<and>
         (\<exists>plan. convert_prepare fs file_glob label_glob None = Inr plan \<and>
            p_bands plan = map int [1 ..< Suc (Max (set (map (\<lambda>r. length (pixels r)) rs)))]) \<and>
         convert_img_to_h5 fs file_glob label_glob (Some []) =
           convert_img_to_h5 fs file_glob label_glob None"
proof -
  let ?bands = "map (\<lambda>r. length (pixels r)) rs"
  note pb = convert_prepare_bands [OF assms]
  have ne: "?bands \<noteq> []" using assms(3) by simp
  have differ: "convert_img_to_h5 fs file_glob label_glob (Some bs) = (Some AssertionError, Absent)"
    if "bs \<noteq> []" "r \<in> set rs" "r' \<in> set rs" "length (pixels r) \<noteq> length (pixels r')" for r r'
  proof -
    have "length (remdups ?bands) \<noteq> 1"
    proof
      assume "length (remdups ?bands) = 1"
      moreover from that(2,3) have "length (pixels r) \<in> set ?bands" "length (pixels r') \<in> set ?bands"
        by simp_all
      ultimately have "length (pixels r) = length (pixels r')" by (rule remdups_single)
      with that(4) show False by simp
    qed
    with that(1) have "select_bands (Some bs) ?bands = Inl AssertionError"
      by (simp add: select_bands_def)
    with pb [of "Some bs" AssertionError]
    have "convert_prepare fs file_glob label_glob (Some bs) = Inl AssertionError"
      by blast
    then show ?thesis by (simp add: convert_img_to_h5_def)
  qed
  have shared: "length (remdups ?bands) = 1" "Max (set ?bands) = n"
    if "\<forall>r \<in> set rs. length (pixels r) = n"
  proof -
    from that have a: "\<forall>x \<in> set ?bands. x = n" by auto
    from remdups_constant [OF ne a] show "length (remdups ?bands) = 1" .
    from Max_constant [OF ne a] show "Max (set ?bands) = n" .
  qed
  have exceed: "convert_img_to_h5 fs file_glob label_glob (Some bs) = (Some AssertionError, Absent)"
    if "bs \<noteq> []" "\<forall>r \<in> set rs. length (pixels r) = n" "int n < Max (set bs)"
  proof -
    from that(1,3) shared [OF that(2)] have "select_bands (Some bs) ?bands = Inl AssertionError"
      by (simp add: select_bands_def)
    with pb [of "Some bs" AssertionError]
    have "convert_prepare fs file_glob label_glob (Some bs) = Inl AssertionError"
      by blast
    then show ?thesis by (simp add: convert_img_to_h5_def)
  qed
  have accept: "\<exists>plan. convert_prepare fs file_glob label_glob (Some bs) = Inr plan \<and> p_bands plan = bs"
    if "bs \<noteq> []" "\<forall>r \<in> set rs. length (pixels r) = n" "Max (set bs) \<le> int n"
  proof -
    from that(3) have "\<not> int n < Max (set bs)" by linarith
    with that(1) shared [OF that(2)] have "select_bands (Some bs) ?bands = Inr bs"
      by (simp add: select_bands_def)
    with pb [of "Some bs" _ bs] show ?thesis by blast
  qed
  have "select_bands None ?bands = Inr (map int [1 ..< Suc (Max (set ?bands))])"
    by (simp add: select_bands_def)
  with pb [of None _ "map int [1 ..< Suc (Max (set ?bands))]"]
  have dflt: "\<exists>plan. convert_prepare fs file_glob label_glob None = Inr plan \<and>
            p_bands plan = map int [1 ..< Suc (Max (set ?bands))]"
    by blast
  have sb: "select_bands (Some []) b = select_bands None b" for b
    by (simp add: select_bands_def)
  have "convert_prepare fs file_glob label_glob (Some []) =
      convert_prepare fs file_glob label_glob None"
    by (simp only: convert_prepare_def sb)
  then have empty: "convert_img_to_h5 fs file_glob label_glob (Some []) =
           convert_img_to_h5 fs file_glob label_glob None"
    by (simp add: convert_img_to_h5_def)
  from differ exceed accept dflt empty show ?thesis by blast
qed

theorem band_selection_checked_witness:
  "length (list_images example_fs_bands is_tif is_label) =
     length (list_labels example_fs_bands is_label (list_images example_fs_bands is_tif is_label)) \<and>
   map (map_of example_fs_bands) (list_images example_fs_bands is_tif is_label) =
     map Some [raster_of [[[7, 8]], [[9, 10]]], raster_of [[[3, 4]]]] \<and>
   list_all wf_raster [raster_of [[[7, 8]], [[9, 10]]], raster_of [[[3, 4]]]] \<and>
   length (pixels (raster_of [[[7, 8]], [[9, 10]]])) \<noteq> length (pixels (raster_of [[[3, 4]]])) \<and>
   convert_img_to_h5 example_fs_bands is_tif is_label (Some [1]) = (Some AssertionError, Absent) \<and>
   (\<exists>plan. convert_prepare example_fs_bands is_tif is_label None = Inr plan \<and>
      p_bands plan = [1, 2]) \<and>
   map (map_of example_fs) (list_images example_fs is_tif is_label) = map Some [example_raster] \<and>
   length (pixels example_raster) = 2 \<and>
   convert_img_to_h5 example_fs is_tif is_label (Some [3]) = (Some AssertionError, Absent) \<and>
   (\<exists>plan. convert_prepare example_fs is_tif is_label (Some [2, 1]) = Inr plan \<and>
      p_bands plan = [2, 1])"
proof -
  let ?A = "raster_of [[[7, 8]], [[9, 10]]]" and ?B = "raster_of [[[3, 4]]]"
  have d: "length (pixels ?A) \<noteq> length (pixels ?B)"
    by (simp add: raster_of_def)
  have n: "length (pixels example_raster) = 2"
    by (simp add: example_raster_def raster_of_def)
  have m: "map int [1 ..< Suc (Max (set (map (\<lambda>r. length (pixels r)) [?A, ?B])))] = [1, 2]"
    by (simp add: raster_of_def upt_conv_Cons)
  note b = band_selection_checked [OF exb_images(1,2) _ exb_wf, of "[1]" 0]
  note e3 = band_selection_checked [OF ex_images(1,2) _ ex_wf, of "[3]" 2]
  note e2 = band_selection_checked [OF ex_images(1,2) _ ex_wf, of "[2, 1]" 2]
  have h1: "[1::int] \<noteq> [] \<and>
      (\<exists>r \<in> set [?A, ?B]. \<exists>r' \<in> set [?A, ?B]. length (pixels r) \<noteq> length (pixels r'))"
  proof (intro conjI bexI)
    show "length (pixels ?A) \<noteq> length (pixels ?B)" by (rule d)
  qed simp_all
  have 1: "convert_img_to_h5 example_fs_bands is_tif is_label (Some [1]) =
      (Some AssertionError, Absent)"
    by (rule b [THEN conjunct1, THEN mp, OF _ h1]) simp
  have 2: "\<exists>plan. convert_prepare example_fs_bands is_tif is_label None = Inr plan \<and>
      p_bands plan = [1, 2]"
    using b [THEN conjunct2, THEN conjunct2, THEN conjunct2, THEN conjunct1] unfolding m by simp
  have h3: "[3::int] \<noteq> [] \<and> (\<forall>r \<in> set [example_raster]. length (pixels r) = 2) \<and>
      int 2 < Max (set [3])"
    by (simp add: n)
  have 3: "convert_img_to_h5 example_fs is_tif is_label (Some [3]) =
      (Some AssertionError, Absent)"
    by (rule e3 [THEN conjunct2, THEN conjunct1, THEN mp, OF _ h3]) simp
  have h4: "[2, 1::int] \<noteq> [] \<and> (\<forall>r \<in> set [example_raster]. length (pixels r) = 2) \<and>
      Max (set [2, 1]) \<le> int 2"
    by (simp add: n)
  have 4: "\<exists>plan. convert_prepare example_fs is_tif is_label (Some [2, 1]) = Inr plan \<and>
      p_bands plan = [2, 1]"
    by (rule e2 [THEN conjunct2, THEN conjunct2, THEN conjunct1, THEN mp, OF _ h4]) simp
  from exb_images exb_wf d 1 2 ex_images(2) n 3 4 show ?thesis by (simp only: simp_thms)
qed

text \<open>
  Claim C6, as stated, lets packing fail before any data is written whenever a band list
  is supplied and the band counts differ. With the empty list and images of 2 and 1 bands
  the band checks are skipped, bands 1 and 2 are selected, and packing fails only while
  the rows are loaded, with the destination already open.
\<close>

theorem band_check_empty_list_counterexample:
  "map (map_of example_fs_bands) (list_images example_fs_bands is_tif is_label) =
     map Some [raster_of [[[7, 8]], [[9, 10]]], raster_of [[[3, 4]]]] \<and>
   length (pixels (raster_of [[[7, 8]], [[9, 10]]])) \<noteq> length (pixels (raster_of [[[3, 4]]])) \<and>
   convert_img_to_h5 example_fs_bands is_tif is_label (Some []) = (Some IndexError, Partial)"
proof -
  have "convert_write example_fs_bands
     \<lparr>p_images = [(''a'', ''img.tif''), (''b'', ''img.tif'')],
      p_labels = [(''a'', ''label.tif''), (''b'', ''label.tif'')],
      p_max_width = 2, p_max_height = 1, p_bands = [1, 2], p_epsgs = [32601, 32601],
      p_affines = [(500, 10, 0, 900, 0, - 10), (500, 10, 0, 900, 0, - 10)],
      p_warning = False\<rparr> = Inl IndexError"
    unfolding convert_write_def conversion_plan.simps exb_load_img sum.case ..
  then have "convert_img_to_h5 example_fs_bands is_tif is_label (Some []) = (Some IndexError, Partial)"
    by (simp add: convert_img_to_h5_def exb_prep_empty)
  with exb_images(2) show ?thesis by (simp add: raster_of_def)
qed


section \<open>The file the label is read from\<close>




section \<open>Packing followed by reconstruction\<close>




end
